(* ===== verification/Go_Base.thy ===== *)
theory Go_Base
  imports Complex_Main "HOL-Library.Word" "HOL-Library.AList" "HOL-Library.Multiset"
begin

unbundle bit_operations_syntax

text \<open>
  The prelude of the development: the Go types the program uses, the pieces of Go's standard
  library it calls on bytes (\<open>encoding/binary\<close>, slicing, \<open>copy\<close>), maps with an explicit iteration
  order, the results of calls that may panic, and the generic lemmas the component theories share.

  \<^item> \<open>byte\<close>, \<open>u16\<close>, \<open>u32\<close>, \<open>u64\<close> are Go's fixed-width unsigned integers; a Go \<open>int\<close> or
    \<open>time.Duration\<close> is an \<open>int\<close> whose 64-bit range is checked where it matters.
  \<^item> A \<open>[]byte\<close> or a Go string is a list of bytes.  A slice that aliases an array (see
    \<open>Ingress\<close>) is a \<open>slice\<close> into a \<open>heap\<close>.
  \<^item> \<open>time.Time\<close> is the reading of the monotonic clock in nanoseconds.
  \<^item> A Go map is an association list with distinct keys: the order of the list is the order the
    runtime happens to iterate in, and operations that iterate take the runtime's choice as an
    argument.
\<close>

section \<open>Types\<close>

type_synonym byte = "8 word"
type_synonym u16 = "16 word"
type_synonym u32 = "32 word"
type_synonym u64 = "64 word"
type_synonym bytes = "byte list"
type_synonym time = int
type_synonym duration = int
type_synonym txid = bytes

named_theorems go_defs \<open>definitions that unfold to list and word operations\<close>
named_theorems be_rt \<open>round trips of the big-endian codecs\<close>
named_theorems go_maps \<open>lookup and domain facts of Go maps\<close>

text \<open>The bytes of an ASCII literal, as a Go string literal denotes them.\<close>

definition str :: "string \<Rightarrow> bytes" where
  "str s = map (\<lambda>c. of_nat (of_char c)) s"

abbreviation second :: duration where "second \<equiv> 1000000000"
abbreviation minute :: duration where "minute \<equiv> 60 * second"
abbreviation millisecond :: duration where "millisecond \<equiv> 1000000"

text \<open>An \<open>error\<close> value: its text is only ever logged, so the model keeps which call it came from.\<close>

datatype err = Err string

text \<open>A call that may panic: \<open>Inl\<close> is the panic.\<close>

datatype panic = MakeSliceCapOutOfRange | SendOnClosedChannel | CloseOfClosedChannel | NonPositiveTicker

section \<open>Byte slices and \<open>encoding/binary\<close>\<close>

text \<open>\<open>b[i:j]\<close>, for indices the caller has checked.\<close>

definition sub :: "'a list \<Rightarrow> nat \<Rightarrow> nat \<Rightarrow> 'a list" where
  "sub b i j = take (j - i) (drop i b)"

text \<open>\<open>copy(b[i:], xs)\<close> into a buffer that is long enough.\<close>

definition put_at :: "'a list \<Rightarrow> nat \<Rightarrow> 'a list \<Rightarrow> 'a list" where
  "put_at b i xs = take i b @ xs @ drop (i + length xs) b"

definition be16 :: "u16 \<Rightarrow> bytes" where
  "be16 v = [ucast (drop_bit 8 v), ucast v]"

definition be32 :: "u32 \<Rightarrow> bytes" where
  "be32 v = [ucast (drop_bit 24 v), ucast (drop_bit 16 v), ucast (drop_bit 8 v), ucast v]"

definition be64 :: "u64 \<Rightarrow> bytes" where
  "be64 v = [ucast (drop_bit 56 v), ucast (drop_bit 48 v), ucast (drop_bit 40 v),
     ucast (drop_bit 32 v), ucast (drop_bit 24 v), ucast (drop_bit 16 v),
     ucast (drop_bit 8 v), ucast v]"

definition Uint16 :: "bytes \<Rightarrow> u16" where
  "Uint16 b = ucast (b ! 1) OR push_bit 8 (ucast (b ! 0))"

definition Uint32 :: "bytes \<Rightarrow> u32" where
  "Uint32 b = ucast (b ! 3) OR push_bit 8 (ucast (b ! 2)) OR push_bit 16 (ucast (b ! 1))
     OR push_bit 24 (ucast (b ! 0))"

definition Uint64 :: "bytes \<Rightarrow> u64" where
  "Uint64 b = ucast (b ! 7) OR push_bit 8 (ucast (b ! 6)) OR push_bit 16 (ucast (b ! 5))
     OR push_bit 24 (ucast (b ! 4)) OR push_bit 32 (ucast (b ! 3)) OR push_bit 40 (ucast (b ! 2))
     OR push_bit 48 (ucast (b ! 1)) OR push_bit 56 (ucast (b ! 0))"

definition PutUint16 :: "bytes \<Rightarrow> nat \<Rightarrow> u16 \<Rightarrow> bytes" where
  "PutUint16 b i v = put_at b i (be16 v)"

definition PutUint32 :: "bytes \<Rightarrow> nat \<Rightarrow> u32 \<Rightarrow> bytes" where
  "PutUint32 b i v = put_at b i (be32 v)"

definition PutUint64 :: "bytes \<Rightarrow> nat \<Rightarrow> u64 \<Rightarrow> bytes" where
  "PutUint64 b i v = put_at b i (be64 v)"

lemma length_be [simp]:
  "length (be16 v) = 2" "length (be32 w) = 4" "length (be64 x) = 8"
  by (simp_all add: be16_def be32_def be64_def)

lemma length_put_at [simp]: "i + length xs \<le> length b \<Longrightarrow> length (put_at b i xs) = length b"
  by (simp add: put_at_def)

lemma length_Put [simp]:
  "i + 2 \<le> length b \<Longrightarrow> length (PutUint16 b i v) = length b"
  "i + 4 \<le> length b \<Longrightarrow> length (PutUint32 b i w) = length b"
  "i + 8 \<le> length b \<Longrightarrow> length (PutUint64 b i x) = length b"
  by (simp_all add: PutUint16_def PutUint32_def PutUint64_def)

lemma length_sub [simp]: "j \<le> length b \<Longrightarrow> length (sub b i j) = j - i"
  by (simp add: sub_def)

lemma nth_sub: "i + k < j \<Longrightarrow> j \<le> length b \<Longrightarrow> sub b i j ! k = b ! (i + k)"
  by (simp add: sub_def)

text \<open>One byte of a word and the bytes above it make the word up to that byte.\<close>

lemma or_byte_step:
  fixes v :: "'a::len word"
  shows "push_bit k (ucast (ucast (drop_bit k v) :: byte)) OR push_bit (k + 8) (drop_bit (k + 8) v)
    = push_bit k (drop_bit k v)"
proof (rule bit_word_eqI)
  fix n assume "n < LENGTH('a)"
  moreover have "bit v (k + 8 + (n - (k + 8))) = bit v n" if "k + 8 \<le> n" using that by simp
  moreover have "bit v (k + (n - k)) = bit v n" if "k \<le> n" using that by simp
  ultimately show "bit (push_bit k (ucast (ucast (drop_bit k v) :: byte))
      OR push_bit (k + 8) (drop_bit (k + 8) v)) n = bit (push_bit k (drop_bit k v)) n"
    by (cases "k \<le> n"; cases "n < k + 8") (auto simp: bit_simps)
qed

lemma or_byte_last:
  fixes v :: "'a::len word"
  assumes "LENGTH('a) = k + 8"
  shows "push_bit k (ucast (ucast (drop_bit k v) :: byte)) = push_bit k (drop_bit k v)"
  by (rule bit_word_eqI) (use assms in \<open>auto simp: bit_simps\<close>)

lemma Uint16_be16 [simp, be_rt]: "Uint16 (be16 v) = v"
  using or_byte_step [of 0 v] or_byte_last [of 8 v]
  by (simp add: Uint16_def be16_def)

lemma Uint32_be32 [simp, be_rt]: "Uint32 (be32 v) = v"
  using or_byte_step [of 0 v] or_byte_step [of 8 v] or_byte_step [of 16 v] or_byte_last [of 24 v]
  by (simp add: Uint32_def be32_def or.assoc)

lemma Uint64_be64 [simp, be_rt]: "Uint64 (be64 v) = v"
  using or_byte_step [of 0 v] or_byte_step [of 8 v] or_byte_step [of 16 v] or_byte_step [of 24 v]
    or_byte_step [of 32 v] or_byte_step [of 40 v] or_byte_step [of 48 v] or_byte_last [of 56 v]
  by (simp add: Uint64_def be64_def or.assoc)

text \<open>The other direction: eight bytes are the encoding of the word they decode to.\<close>

lemma byte_bit_bound: "8 \<le> n \<Longrightarrow> \<not> bit (x :: byte) n"
  using bit_imp_le_length by fastforce

lemma list8_conv: "length b = 8 \<Longrightarrow> b = [b!0, b!1, b!2, b!3, b!4, b!5, b!6, b!7]"
  by (simp add: list_eq_iff_nth_eq nth_Cons' less_Suc_eq numeral_eq_Suc)

lemma byte_eqI: "(\<And>n. n < 8 \<Longrightarrow> bit (x :: byte) n = bit y n) \<Longrightarrow> x = y"
  by (rule bit_word_eqI) simp

lemma byte_of_Uint64:
  "(ucast (drop_bit 56 (Uint64 b)) :: byte) = b ! 0"
  "(ucast (drop_bit 48 (Uint64 b)) :: byte) = b ! 1"
  "(ucast (drop_bit 40 (Uint64 b)) :: byte) = b ! 2"
  "(ucast (drop_bit 32 (Uint64 b)) :: byte) = b ! 3"
  "(ucast (drop_bit 24 (Uint64 b)) :: byte) = b ! 4"
  "(ucast (drop_bit 16 (Uint64 b)) :: byte) = b ! 5"
  "(ucast (drop_bit 8 (Uint64 b)) :: byte) = b ! 6"
  "(ucast (Uint64 b) :: byte) = b ! 7"
  by (rule byte_eqI, simp add: Uint64_def bit_simps byte_bit_bound)+

lemma be64_Uint64 [be_rt]: "length b = 8 \<Longrightarrow> be64 (Uint64 b) = b"
  using list8_conv [of b] by (simp add: be64_def byte_of_Uint64)

lemma be64_inject [simp]: "be64 v = be64 w \<longleftrightarrow> v = w"
  by (metis Uint64_be64)

lemma be16_inject [simp]: "be16 v = be16 w \<longleftrightarrow> v = w"
  by (metis Uint16_be16)

lemma be32_inject [simp]: "be32 v = be32 w \<longleftrightarrow> v = w"
  by (metis Uint32_be32)

text \<open>Reading back a field of a buffer that was just written, and one that was not touched.\<close>

lemma sub_put_same [simp]:
  "i + length xs \<le> length b \<Longrightarrow> j = i + length xs \<Longrightarrow> sub (put_at b i xs) i j = xs"
  by (simp add: sub_def put_at_def)

lemma sub_put_before:
  "j \<le> i \<Longrightarrow> i + length xs \<le> length b \<Longrightarrow> sub (put_at b i xs) k j = sub b k j"
  by (cases "k \<le> j") (simp_all add: sub_def put_at_def take_drop min_def)

lemma sub_put_after:
  assumes "i + length xs \<le> k" "i + length xs \<le> length b"
  shows "sub (put_at b i xs) k j = sub b k j"
proof -
  have "drop k (put_at b i xs) = drop k b"
    using assms by (simp add: put_at_def)
  then show ?thesis by (simp add: sub_def)
qed

lemma nth_put_at_same:
  "i + length xs \<le> length b \<Longrightarrow> k < length xs \<Longrightarrow> put_at b i xs ! (i + k) = xs ! k"
  by (simp add: put_at_def nth_append)

lemma nth_put_at_other:
  "i + length xs \<le> length b \<Longrightarrow> k < i \<or> i + length xs \<le> k \<Longrightarrow> k < length b
    \<Longrightarrow> put_at b i xs ! k = b ! k"
  by (auto simp: put_at_def nth_append min_def)

lemma put_at_all: "length xs = length b \<Longrightarrow> put_at b 0 xs = xs"
  by (simp add: put_at_def)

section \<open>Conversions from \<open>float64\<close>\<close>

text \<open>
  A \<open>float64\<close> is a rational or one of the special values.  Converting a value outside the
  target's range is implementation-defined in Go: the argument \<open>oob\<close> is what the platform does.
\<close>

datatype f64 = Fin rat | PInf | NInf | NaN

definition trunc :: "rat \<Rightarrow> int" where
  "trunc r = (if 0 \<le> r then \<lfloor>r\<rfloor> else - \<lfloor>- r\<rfloor>)"

definition int64_range :: "int \<Rightarrow> bool" where
  "int64_range n \<longleftrightarrow> - (2 ^ 63) \<le> n \<and> n < 2 ^ 63"

definition int_of_f64 :: "(f64 \<Rightarrow> int) \<Rightarrow> f64 \<Rightarrow> int" where
  "int_of_f64 oob x = (case x of
     Fin r \<Rightarrow> if int64_range (trunc r) then trunc r else oob x
   | _ \<Rightarrow> oob x)"

fun f64_le_zero :: "f64 \<Rightarrow> bool" where
  "f64_le_zero (Fin r) = (r \<le> 0)"
| "f64_le_zero NInf = True"
| "f64_le_zero _ = False"

fun f64_eq_zero :: "f64 \<Rightarrow> bool" where
  "f64_eq_zero (Fin r) = (r = 0)"
| "f64_eq_zero _ = False"

section \<open>Go maps\<close>

text \<open>
  \<open>m[k]\<close>, \<open>m[k] = v\<close>, \<open>delete(m, k)\<close> and \<open>len(m)\<close> are \<open>map_of\<close>, \<open>AList.update\<close>,
  \<open>AList.delete\<close> and \<open>length\<close> on an association list with distinct keys.
\<close>

abbreviation wf_map :: "('k \<times> 'v) list \<Rightarrow> bool" where
  "wf_map m \<equiv> distinct (map fst m)"

text \<open>The first key of \<open>for k := range m\<close>, the runtime's choice being \<open>r\<close>.\<close>

definition range_first :: "nat \<Rightarrow> ('k \<times> 'v) list \<Rightarrow> 'k" where
  "range_first r m = fst (m ! (r mod length m))"

lemma range_first_in: "m \<noteq> [] \<Longrightarrow> range_first r m \<in> fst ` set m"
  by (simp add: range_first_def)

lemma range_first_any: "k \<in> fst ` set m \<Longrightarrow> \<exists>r. range_first r m = k"
proof -
  assume "k \<in> fst ` set m"
  then obtain i where "i < length m" "fst (m ! i) = k"
    by (auto simp: in_set_conv_nth)
  then have "range_first i m = k" by (simp add: range_first_def)
  then show ?thesis ..
qed

lemma map_of_update [simp, go_maps]: "map_of (AList.update k v m) = (map_of m)(k \<mapsto> v)"
  by (simp add: update_conv')

lemma map_of_delete [simp, go_maps]: "map_of (AList.delete k m) = (map_of m)(k := None)"
  by (simp add: AList.delete_conv')

lemma wf_map_update [simp]: "wf_map m \<Longrightarrow> wf_map (AList.update k v m)"
  by (simp add: distinct_update)

lemma wf_map_delete [simp]: "wf_map m \<Longrightarrow> wf_map (AList.delete k m)"
  by (rule distinct_delete)

lemma wf_map_filter [simp]: "wf_map m \<Longrightarrow> wf_map (filter P m)"
  by (induction m) auto

lemma length_update_map:
  "length (AList.update k v m) = (if k \<in> fst ` set m then length m else Suc (length m))"
  by (induction m) auto

lemma length_delete_map:
  "wf_map m \<Longrightarrow> length (AList.delete k m) = (if k \<in> fst ` set m then length m - 1 else length m)"
proof (induction m)
  case (Cons x m)
  then show ?case by (cases x) (force simp: AList.delete_simps dest: length_pos_if_in_set)
qed simp

lemma map_of_filter_wf:
  "wf_map m \<Longrightarrow> map_of (filter P m) k
    = (case map_of m k of None \<Rightarrow> None | Some v \<Rightarrow> if P (k, v) then Some v else None)"
proof (induction m)
  case (Cons x m)
  then show ?case
    by (cases x) (auto simp: map_of_eq_None_iff split: option.splits)
qed simp

text \<open>
  \<open>for k, v := range m\<close> over the whole map: \<open>ord\<close> is the order the runtime chooses, as a permutation of the positions.  Any
  other list stands for the order of insertion.
\<close>

definition range_over :: "nat list \<Rightarrow> 'a list \<Rightarrow> 'a list" where
  "range_over ord m = (if mset ord = mset [0..<length m] then map ((!) m) ord else m)"

lemma mset_range_over [simp]: "mset (range_over ord m) = mset m"
proof (cases "mset ord = mset [0..<length m]")
  case True
  then have "mset (map ((!) m) ord) = mset (map ((!) m) [0..<length m])" by (simp only: mset_map)
  then show ?thesis using True by (simp add: range_over_def map_nth)
qed (simp add: range_over_def)

lemma set_range_over [simp]: "set (range_over ord m) = set m"
  by (rule mset_eq_setD) simp

lemma range_over_single [simp]: "range_over [0] [x] = [x]"
  by (simp add: range_over_def)

section \<open>Slices that alias an array\<close>

text \<open>
  A slice that is kept beyond the call that made it is a reference: the array it points into, an
  offset and a length.  Reading it gives what the array holds at that moment.
\<close>

record slice =
  sl_arr :: nat
  sl_off :: nat
  sl_len :: nat

type_synonym heap = "nat \<Rightarrow> bytes"

definition deref :: "heap \<Rightarrow> slice \<Rightarrow> bytes" where
  "deref h s = sub (h (sl_arr s)) (sl_off s) (sl_off s + sl_len s)"

lemma deref_prefix [simp]:
  "deref h \<lparr>sl_arr = a, sl_off = 0, sl_len = n\<rparr> = take n (h a)"
  by (simp add: deref_def sub_def)

end
