(* ===== verification/Go_Net.thy ===== *)
theory Go_Net
  imports Go_Base
begin

text \<open>
  What the program uses of Go's \<open>net\<close> and \<open>fmt\<close> packages: addresses (a \<open>net.IP\<close> is a byte slice,
  empty for nil), \<open>IP.To4\<close>, \<open>IP.To16\<close>, \<open>IP.String\<close> with the zero compression of RFC 5952, and the
  verbs \<open>%d\<close> and \<open>%016x\<close> that build the rate limiter's keys.  The lemmas show that the printed
  keys determine their parts.
\<close>

section \<open>Printing numbers\<close>

definition hex_digit :: "nat \<Rightarrow> byte" where
  "hex_digit d = (if d < 10 then of_nat (48 + d) else of_nat (87 + d))"

text \<open>\<open>%016x\<close> of a \<open>uint64\<close>: sixteen lower-case digits.\<close>

definition hex16 :: "u64 \<Rightarrow> bytes" where
  "hex16 w = map (\<lambda>s. hex_digit (unat (drop_bit s w AND 15)))
     [60, 56, 52, 48, 44, 40, 36, 32, 28, 24, 20, 16, 12, 8, 4, 0]"

text \<open>\<open>%x\<close> without padding, as \<open>appendHex\<close> of \<open>net/netip\<close> prints a group.\<close>

fun hex_nat :: "nat \<Rightarrow> bytes" where
  "hex_nat n = (if n < 16 then [hex_digit n] else hex_nat (n div 16) @ [hex_digit (n mod 16)])"

fun dec_nat :: "nat \<Rightarrow> bytes" where
  "dec_nat n = (if n < 10 then [hex_digit n] else dec_nat (n div 10) @ [hex_digit (n mod 10)])"

declare hex_nat.simps [simp del] dec_nat.simps [simp del]

abbreviation colon :: byte where "colon \<equiv> 58"
abbreviation dot :: byte where "dot \<equiv> 46"

section \<open>Addresses\<close>

type_synonym ip = bytes

record udp_addr =
  ua_ip :: ip
  ua_port :: int

definition IPv6unspecified :: ip where
  "IPv6unspecified = replicate 16 0"

definition To4 :: "ip \<Rightarrow> ip option" where
  "To4 a = (if length a = 4 then Some a
     else if length a = 16 \<and> take 10 a = replicate 10 0 \<and> a ! 10 = 255 \<and> a ! 11 = 255
     then Some (drop 12 a) else None)"

definition To16 :: "ip \<Rightarrow> ip option" where
  "To16 a = (if length a = 4 then Some (replicate 10 0 @ [255, 255] @ a)
     else if length a = 16 then Some a else None)"

definition ipv4_string :: "ip \<Rightarrow> bytes" where
  "ipv4_string a = dec_nat (unat (a ! 0)) @ [dot] @ dec_nat (unat (a ! 1)) @ [dot]
     @ dec_nat (unat (a ! 2)) @ [dot] @ dec_nat (unat (a ! 3))"

text \<open>The eight 16-bit groups of an address.\<close>

definition v6_groups :: "ip \<Rightarrow> nat list" where
  "v6_groups a = map (\<lambda>i. 256 * unat (a ! (2 * i)) + unat (a ! (2 * i + 1))) [0..<8]"

text \<open>The first longest run of at least two zero groups, as in \<open>netip.Addr.appendTo6\<close>.\<close>

definition zero_run_at :: "nat list \<Rightarrow> nat \<Rightarrow> nat" where
  "zero_run_at gs i = length (takeWhile (\<lambda>g. g = 0) (drop i gs))"

definition zero_run :: "nat list \<Rightarrow> (nat \<times> nat) option" where
  "zero_run gs = foldl (\<lambda>best i.
     let l = zero_run_at gs i
     in if l \<ge> 2 \<and> (case best of None \<Rightarrow> True | Some (s, e) \<Rightarrow> l > e - s)
        then Some (i, i + l) else best) None [0..<8]"

function v6_emit :: "nat list \<Rightarrow> (nat \<times> nat) option \<Rightarrow> nat \<Rightarrow> bytes" where
  "v6_emit gs z i =
     (if i \<ge> 8 then []
      else case z of
        Some (s, e) \<Rightarrow>
          if i = s then [colon, colon] @ (if e \<ge> 8 \<or> e \<le> s then [] else hex_nat (gs ! e) @ v6_emit gs z (Suc e))
          else (if i > 0 then [colon] else []) @ hex_nat (gs ! i) @ v6_emit gs z (Suc i)
      | None \<Rightarrow> (if i > 0 then [colon] else []) @ hex_nat (gs ! i) @ v6_emit gs z (Suc i))"
  by pat_completeness auto
termination
  by (relation "measure (\<lambda>(gs, z, i). 8 - i)") auto

declare v6_emit.simps [simp del]

definition ipv6_string :: "ip \<Rightarrow> bytes" where
  "ipv6_string a = v6_emit (v6_groups a) (zero_run (v6_groups a)) 0"

definition hex_string :: "bytes \<Rightarrow> bytes" where
  "hex_string b = concat (map (\<lambda>x. [hex_digit (unat x div 16), hex_digit (unat x mod 16)]) b)"

definition IP_String :: "ip \<Rightarrow> bytes" where
  "IP_String a = (if a = [] then str ''<nil>''
     else if length a \<noteq> 4 \<and> length a \<noteq> 16 then str ''?'' @ hex_string a
     else case To4 a of Some p4 \<Rightarrow> ipv4_string p4 | None \<Rightarrow> ipv6_string a)"

text \<open>A \<open>net.Interface\<close>, as far as the program uses it.\<close>

record iface =
  if_Name :: bytes
  if_Index :: int

section \<open>Printed numbers determine the number\<close>

lemma unat_hex_digit: "d < 16 \<Longrightarrow> unat (hex_digit d) = (if d < 10 then 48 + d else 87 + d)"
  by (simp add: hex_digit_def unat_of_nat del: of_nat_add)

lemma hex_digit_inj: "a < 16 \<Longrightarrow> b < 16 \<Longrightarrow> hex_digit a = hex_digit b \<longleftrightarrow> a = b"
  by (auto simp: word_unat_eq_iff unat_hex_digit)

lemma hex_digit_not_colon: "d < 16 \<Longrightarrow> hex_digit d \<noteq> colon"
  by (auto simp: word_unat_eq_iff unat_hex_digit)

lemma unat_nibble: "unat (v AND 15 :: u64) < 16"
proof -
  have "unat (v AND 15) \<le> unat (15 :: u64)"
    by (rule word_and_le1 [THEN word_le_nat_alt [THEN iffD1]])
  then show ?thesis by simp
qed

lemma nibble_bit: "k < 4 \<Longrightarrow> s + k < 64 \<Longrightarrow> bit (drop_bit s w AND 15 :: u64) k = bit w (s + k)"
proof -
  assume "k < 4" "s + k < 64"
  then have "k = 0 \<or> k = 1 \<or> k = 2 \<or> k = 3" by auto
  then have "bit (15 :: u64) k" by auto
  then show ?thesis by (simp add: bit_simps)
qed

lemma hex16_inject [simp]: "hex16 v = hex16 w \<longleftrightarrow> v = w"
proof
  assume eq: "hex16 v = hex16 w"
  have nib: "drop_bit s v AND 15 = drop_bit s w AND 15"
    if "s \<in> set [60, 56, 52, 48, 44, 40, 36, 32, 28, 24, 20, 16, 12, 8, 4, 0]" for s
  proof -
    have "hex_digit (unat (drop_bit s v AND 15)) = hex_digit (unat (drop_bit s w AND 15))"
      using eq that unfolding hex16_def map_eq_conv by blast
    then have "unat (drop_bit s v AND 15) = unat (drop_bit s w AND 15)"
      by (simp add: hex_digit_inj unat_nibble)
    then show ?thesis by (simp add: word_unat_eq_iff)
  qed
  show "v = w"
  proof (rule bit_word_eqI)
    fix n assume "n < LENGTH(64)"
    then have n: "n < 64" by simp
    have "list_all (\<lambda>m. 4 * m \<in> set [60, 56, 52, 48, 44, 40, 36, 32, 28, 24, 20, 16, 12, 8, 4, 0 :: nat]) [0..<16]"
      by code_simp
    moreover have "n div 4 \<in> set [0..<16]" using n by auto
    ultimately have "4 * (n div 4) \<in> set [60, 56, 52, 48, 44, 40, 36, 32, 28, 24, 20, 16, 12, 8, 4, 0 :: nat]"
      unfolding list_all_iff by blast
    then have "drop_bit (4 * (n div 4)) v AND 15 = drop_bit (4 * (n div 4)) w AND 15"
      by (rule nib)
    moreover have "n mod 4 < 4" "4 * (n div 4) + n mod 4 = n" by simp_all
    ultimately show "bit v n = bit w n"
      using nibble_bit [of "n mod 4" "4 * (n div 4)" v] nibble_bit [of "n mod 4" "4 * (n div 4)" w] n
      by simp
  qed
qed simp

lemma length_hex16 [simp]: "length (hex16 w) = 16"
  by (simp add: hex16_def)

lemma dec_nat_digits: "x \<in> set (dec_nat n) \<Longrightarrow> \<exists>d < 10. x = hex_digit d"
proof (induction n rule: dec_nat.induct)
  case (1 n)
  then show ?case by (subst (asm) dec_nat.simps) (force split: if_splits)
qed

lemma dec_nat_no_colon: "colon \<notin> set (dec_nat n)"
  using dec_nat_digits [of colon n] hex_digit_not_colon by fastforce

lemma dec_nat_nonempty [simp]: "dec_nat n \<noteq> []"
  by (subst dec_nat.simps) simp

lemma dec_nat_inject: "dec_nat m = dec_nat n \<longleftrightarrow> m = n"
proof
  show "dec_nat m = dec_nat n \<Longrightarrow> m = n"
  proof (induction m arbitrary: n rule: dec_nat.induct)
    case (1 m)
    have last: "last (dec_nat k) = hex_digit (k mod 10)" for k
      by (subst dec_nat.simps) auto
    have init: "butlast (dec_nat k) = (if k < 10 then [] else dec_nat (k div 10))" for k
      by (subst dec_nat.simps) auto
    from 1 have "hex_digit (m mod 10) = hex_digit (n mod 10)" by (metis last)
    then have mod: "m mod 10 = n mod 10" by (subst (asm) hex_digit_inj) auto
    have "butlast (dec_nat m) = butlast (dec_nat n)" using 1 by simp
    then have "m < 10 \<and> n < 10 \<or> \<not> m < 10 \<and> \<not> n < 10 \<and> dec_nat (m div 10) = dec_nat (n div 10)"
      by (auto simp: init split: if_splits dest: sym)
    then show ?case
    proof
      assume "m < 10 \<and> n < 10" then show ?thesis using mod by simp
    next
      assume d: "\<not> m < 10 \<and> \<not> n < 10 \<and> dec_nat (m div 10) = dec_nat (n div 10)"
      then have "m div 10 = n div 10" using 1(1) by blast
      then show ?thesis using mod by (metis div_mod_decomp)
    qed
  qed
qed simp

text \<open>A prefix, a colon and a text without colons determine both parts.\<close>

lemma split_last_colon:
  assumes "xs @ [c] @ ys = xs' @ [c] @ ys'" "c \<notin> set ys" "c \<notin> set ys'"
  shows "xs = xs' \<and> ys = ys'"
proof -
  have tw: "takeWhile (\<lambda>x. x \<noteq> c) (rev (us @ [c] @ vs)) = rev vs" if "c \<notin> set vs" for us vs
    using that by (induction vs rule: rev_induct) auto
  have "rev ys = rev ys'"
    using tw [OF assms(2), of xs] tw [OF assms(3), of xs'] unfolding assms(1) by simp
  then show ?thesis using assms(1) by simp
qed

end
