(* ===== verification/Go_Float.thy ===== *)
theory Go_Float
  imports Go_Net "HOL-Library.Log_Nat"
begin

text \<open>
  Arithmetic of \<open>float64\<close> on values that are not negative and within its normal range: a result is the exact one
  rounded to 53 bits, ties to even.
\<close>

section \<open>Definitions\<close>

definition half_even :: "rat \<Rightarrow> int" where
  "half_even x = (let n = \<lfloor>x\<rfloor>; d = x - of_int n
     in if d < 1 / 2 then n else if 1 / 2 < d then n + 1 else if even n then n else n + 1)"

definition round53 :: "rat \<Rightarrow> rat" where
  "round53 q = (if q = 0 then 0
     else let (a, b) = quotient_of q;
              k = int (floorlog 2 (nat a)) - int (floorlog 2 (nat b));
              e = (if 2 powi k \<le> q then k else k - 1);
              u = 2 powi (e - 52)
          in of_int (half_even (q / u)) * u)"

section \<open>Rounding\<close>

lemma half_even_error: "\<bar>of_int (half_even x) - x\<bar> \<le> 1 / 2"
proof -
  define n where "n = \<lfloor>x\<rfloor>"
  have "x - of_int n < 1" "of_int n \<le> x" unfolding n_def by linarith+
  then show ?thesis unfolding half_even_def Let_def n_def [symmetric] by (auto simp: abs_if)
qed

lemma powi_floorlog:
  fixes a :: int
  assumes "0 < a"
  shows "2 powi (int (floorlog 2 (nat a)) - 1) \<le> (of_int a :: rat)" "(of_int a :: rat) < 2 powi int (floorlog 2 (nat a))"
proof -
  obtain m where m: "floorlog 2 (nat a) = Suc m" "2 ^ m \<le> nat a" "nat a < 2 ^ Suc m"
    using assms floorlog_bounds [of "nat a" 2] by (cases "floorlog 2 (nat a)") auto
  have "2 ^ m \<le> a" "a < 2 ^ Suc m" using m(2,3) assms by (simp_all add: le_nat_iff nat_less_iff)
  then have "(2 ^ m :: rat) \<le> of_int a" "(of_int a :: rat) < 2 ^ Suc m"
    by (metis of_int_le_iff of_int_power of_int_numeral, metis of_int_less_iff of_int_power of_int_numeral)
  then show "2 powi (int (floorlog 2 (nat a)) - 1) \<le> (of_int a :: rat)" "(of_int a :: rat) < 2 powi int (floorlog 2 (nat a))"
    by (simp_all add: m(1) power_int_add)
qed

text \<open>A relative error of at most half a unit in the last place.\<close>

lemma round53_error:
  assumes "0 \<le> q"
  shows "\<bar>round53 q - q\<bar> \<le> q / 2 ^ 53"
proof (cases "q = 0")
  case False
  obtain a b where ab: "quotient_of q = (a, b)" by fastforce
  then have q: "q = of_int a / of_int b" "0 < b" using quotient_of_div quotient_of_denom_pos by blast+
  then have "0 < a" using assms False by (simp add: zero_le_divide_iff)
  define k where "k = int (floorlog 2 (nat a)) - int (floorlog 2 (nat b))"
  define e where "e = (if 2 powi k \<le> q then k else k - 1)"
  define u :: rat where "u = 2 powi (e - 52)"
  have "(2 :: rat) powi (k - 1) = 2 powi (int (floorlog 2 (nat a)) - 1) / 2 powi int (floorlog 2 (nat b))"
    by (simp add: k_def power_int_diff power_int_add field_simps)
  also have "\<dots> \<le> of_int a / of_int b"
    using powi_floorlog [OF \<open>0 < a\<close>] powi_floorlog [OF q(2)] q(2) \<open>0 < a\<close> by (intro frac_le) simp_all
  finally have "2 powi e \<le> q" using q by (simp add: e_def)
  then have u: "u / 2 \<le> q / 2 ^ 53" "0 < u" by (simp_all add: u_def power_int_diff field_simps)
  have "round53 q = of_int (half_even (q / u)) * u"
    by (simp only: round53_def ab Let_def prod.case False if_False flip: k_def e_def u_def)
  then have "round53 q - q = (of_int (half_even (q / u)) - q / u) * u" using u(2) by (simp add: algebra_simps)
  then have "\<bar>round53 q - q\<bar> = \<bar>of_int (half_even (q / u)) - q / u\<bar> * u" using u(2) by (simp add: abs_mult)
  also have "\<dots> \<le> 1 / 2 * u" using half_even_error u(2) by (intro mult_right_mono) simp_all
  finally show ?thesis using u(1) by simp
qed (simp add: round53_def)

end
