(* ===== verification/Go_Parse.thy ===== *)
theory Go_Parse
  imports Go_Float
begin

text \<open>
  What the program uses of Go's parsers: digits as \<open>strconv\<close> reads them, \<open>net.ParseIP\<close> (the parser of \<open>net/netip\<close>
  without zones) and its round trip with \<open>IP.String\<close>, by which the printed address that
  identifies a client in the rate limiter determines the client; and \<open>time.ParseDuration\<close>.
\<close>

section \<open>Digits\<close>

text \<open>The value of a digit, as \<open>strconv.ParseUint\<close> reads it: letters of either case count from ten.\<close>

definition digit_value :: "byte \<Rightarrow> nat option" where
  "digit_value c = (let n = unat c in
     if 48 \<le> n \<and> n \<le> 57 then Some (n - 48)
     else if 97 \<le> n \<and> n \<le> 122 then Some (n - 97 + 10)
     else if 65 \<le> n \<and> n \<le> 90 then Some (n - 65 + 10)
     else None)"

definition is_digit :: "nat \<Rightarrow> byte \<Rightarrow> bool" where
  "is_digit base c = (case digit_value c of None \<Rightarrow> False | Some d \<Rightarrow> d < base)"

text \<open>The value of a digit string after \<open>n\<close>.\<close>

definition horner :: "nat \<Rightarrow> nat \<Rightarrow> bytes \<Rightarrow> nat" where
  "horner base n cs = foldl (\<lambda>n c. n * base + the (digit_value c)) n cs"

lemma horner_simps [simp]:
  "horner base n [] = n" "horner base n (c # cs) = horner base (n * base + the (digit_value c)) cs"
  by (simp_all add: horner_def)

section \<open>\<open>net.ParseIP\<close>\<close>

text \<open>\<open>parseIPv4Fields\<close>: \<open>fs\<close> are the fields complete, \<open>v\<close> and \<open>n\<close> the value and the number of digits of the
  current one.  A dot needs a digit before it (so none may be first or doubled) and a character after it.\<close>

fun v4_loop :: "bytes \<Rightarrow> nat \<Rightarrow> nat \<Rightarrow> bytes \<Rightarrow> bytes option" where
  "v4_loop fs v n [] = (if length fs < 3 then None else Some (fs @ [of_nat v]))"
| "v4_loop fs v n (c # cs) =
     (if is_digit 10 c then
        (if n = 1 \<and> v = 0 then None
         else let v' = v * 10 + the (digit_value c) in if v' > 255 then None else v4_loop fs v' (Suc n) cs)
      else if c = dot then
        (if n = 0 \<or> cs = [] \<or> length fs = 3 then None else v4_loop (fs @ [of_nat v]) 0 0 cs)
      else None)"

definition parse_v4 :: "bytes \<Rightarrow> bytes option" where
  "parse_v4 s = v4_loop [] 0 0 s"

text \<open>The loop of \<open>parseIPv6\<close>: \<open>acc\<close> are the bytes read so far, \<open>ell\<close> the place of the ellipsis.\<close>

function v6_loop :: "bytes \<Rightarrow> nat option \<Rightarrow> bytes \<Rightarrow> (bytes \<times> nat option) option" where
  "v6_loop acc ell s =
     (if length acc \<ge> 16 then (if s = [] then Some (acc, ell) else None)
      else let hs = takeWhile (is_digit 16) s; rest = drop (length hs) s; v = horner 16 0 hs
        in if hs = [] \<or> length hs > 4 then None
           else if rest \<noteq> [] \<and> hd rest = dot then
             (if ell = None \<and> length acc \<noteq> 12 \<or> length acc > 12 then None
              else map_option (\<lambda>b. (acc @ b, ell)) (parse_v4 s))
           else let acc' = acc @ [of_nat (v div 256), of_nat (v mod 256)]
             in if rest = [] then Some (acc', ell)
                else if hd rest \<noteq> colon \<or> tl rest = [] then None
                else let s1 = tl rest
                  in if hd s1 = colon then
                       (if ell \<noteq> None then None
                        else if tl s1 = [] then Some (acc', Some (length acc'))
                        else v6_loop acc' (Some (length acc')) (tl s1))
                     else v6_loop acc' ell s1)"
  by pat_completeness auto
termination
  by (relation "measure (\<lambda>(acc, ell, s). 16 - length acc)") auto

declare v6_loop.simps [simp del]

text \<open>The ellipsis stands for at least one group of zeros.\<close>

definition v6_expand :: "bytes \<times> nat option \<Rightarrow> ip option" where
  "v6_expand r = (case r of
       (acc, None) \<Rightarrow> if length acc = 16 then Some acc else None
     | (acc, Some e) \<Rightarrow> if length acc < 16 then Some (take e acc @ replicate (16 - length acc) 0 @ drop e acc) else None)"

definition parse_v6 :: "bytes \<Rightarrow> ip option" where
  "parse_v6 s =
     (if take 2 s = [colon, colon] then
        (if drop 2 s = [] then Some (replicate 16 0) else Option.bind (v6_loop [] (Some 0) (drop 2 s)) v6_expand)
      else Option.bind (v6_loop [] None s) v6_expand)"

text \<open>The first dot, colon or percent sign decides; an address with a zone is not an IP.\<close>

definition ParseIP :: "bytes \<Rightarrow> ip option" where
  "ParseIP s = (case find (\<lambda>c. c \<in> {dot, colon, 37}) s of
       None \<Rightarrow> None
     | Some c \<Rightarrow>
         if c = dot then map_option (\<lambda>b. replicate 10 0 @ [255, 255] @ b) (parse_v4 s)
         else if c = colon \<and> 37 \<notin> set s then parse_v6 s
         else None)"

section \<open>Printed digits\<close>

lemma horner_append [simp]: "horner base n (xs @ ys) = horner base (horner base n xs) ys"
  by (simp add: horner_def)

lemma digit_value_hex_digit [simp]: "d < 16 \<Longrightarrow> digit_value (hex_digit d) = Some d"
  by (simp add: digit_value_def unat_hex_digit Let_def)

lemma is_digit_hex [simp]: "d < 16 \<Longrightarrow> is_digit base (hex_digit d) \<longleftrightarrow> d < base"
  by (simp add: is_digit_def)

lemma not_digit [simp]: "\<not> is_digit b colon" "\<not> is_digit b dot"
  by (simp_all add: is_digit_def digit_value_def)

lemma hex_nat_digits: "c \<in> set (hex_nat n) \<Longrightarrow> is_digit 16 c"
proof (induction n rule: hex_nat.induct)
  case (1 n)
  then show ?case by (subst (asm) hex_nat.simps) (auto split: if_splits)
qed

lemma hex_nat_nonempty [simp]: "hex_nat n \<noteq> []"
  by (subst hex_nat.simps) simp

lemma horner_hex_nat [simp]: "horner 16 0 (hex_nat n) = n"
proof (induction n rule: hex_nat.induct)
  case (1 n)
  then show ?case by (subst hex_nat.simps) simp
qed

lemma length_hex_nat: "n < 16 ^ k \<Longrightarrow> 0 < k \<Longrightarrow> length (hex_nat n) \<le> k"
proof (induction n arbitrary: k rule: hex_nat.induct)
  case (1 n)
  show ?case
  proof (cases "n < 16")
    case False
    then obtain m where m: "k = Suc m" "0 < m" using 1(2,3) by (cases k; cases "k - 1") auto
    then have "n div 16 < 16 ^ m" using 1(2) by (simp add: less_mult_imp_div_less mult.commute)
    then show ?thesis using 1(1) [OF False, of m] m False by (subst hex_nat.simps) simp
  qed (use 1 in \<open>subst hex_nat.simps, simp\<close>)
qed

section \<open>IPv4\<close>

lemma v4_number: "n \<le> 255 \<Longrightarrow> v4_loop fs 0 0 (dec_nat n @ rest) = v4_loop fs n (length (dec_nat n)) rest"
proof (induction n arbitrary: rest rule: dec_nat.induct)
  case (1 n)
  show ?case
  proof (cases "n < 10")
    case True
    then have "dec_nat n = [hex_digit n]" by (subst dec_nat.simps) simp
    then show ?thesis using True by simp
  next
    case False
    then have eq: "dec_nat n = dec_nat (n div 10) @ [hex_digit (n mod 10)]" by (subst dec_nat.simps) simp
    have "n div 10 \<noteq> 0" "n div 10 \<le> 255" using False 1(2) by simp_all
    then show ?thesis using 1(1) [OF False, of "hex_digit (n mod 10) # rest"] 1(2) by (simp add: eq Let_def)
  qed
qed

lemma v4_dot: "n \<noteq> 0 \<Longrightarrow> cs \<noteq> [] \<Longrightarrow> length fs < 3 \<Longrightarrow> v4_loop fs v n (dot # cs) = v4_loop (fs @ [of_nat v]) 0 0 cs"
  by simp

lemma parse_v4_string:
  assumes "length a = 4"
  shows "parse_v4 (ipv4_string a) = Some a"
proof -
  from assms obtain w x y z where a: "a = [w, x, y, z]" by (auto simp: numeral_eq_Suc length_Suc_conv)
  have "unat b \<le> 255" for b :: byte using unsigned_less [of b, where ?'a = nat] by simp
  then show ?thesis
    by (simp add: parse_v4_def ipv4_string_def a v4_number v4_dot v4_number [where rest = "[]", simplified] del: v4_loop.simps(2))
qed

section \<open>IPv6\<close>

definition group_bytes :: "nat \<Rightarrow> bytes" where
  "group_bytes g = [of_nat (g div 256), of_nat (g mod 256)]"

lemma length_groups [simp]: "length (concat (map group_bytes gs)) = 2 * length gs"
  by (induction gs) (simp_all add: group_bytes_def)

lemma take_hex_all [simp]: "takeWhile (is_digit 16) (hex_nat g) = hex_nat g"
  by (simp add: takeWhile_eq_all_conv hex_nat_digits)

lemma take_hex: "rest = [] \<or> hd rest = colon \<Longrightarrow> takeWhile (is_digit 16) (hex_nat g @ rest) = hex_nat g"
  by (cases rest) (auto simp: takeWhile_append hex_nat_digits)

lemma v6_group:
  assumes "length acc < 16" "g < 65536"
  shows "v6_loop acc ell (hex_nat g) = Some (acc @ group_bytes g, ell)"
    "s1 \<noteq> [] \<Longrightarrow> hd s1 \<noteq> colon \<Longrightarrow> v6_loop acc ell (hex_nat g @ colon # s1) = v6_loop (acc @ group_bytes g) ell s1"
    "v6_loop acc None (hex_nat g @ colon # colon # s2) =
       (if s2 = [] then Some (acc @ group_bytes g, Some (length acc + 2)) else v6_loop (acc @ group_bytes g) (Some (length acc + 2)) s2)"
proof -
  have g: "length (hex_nat g) \<le> 4" using assms(2) by (intro length_hex_nat) simp_all
  show "v6_loop acc ell (hex_nat g) = Some (acc @ group_bytes g, ell)"
    using assms g by (subst v6_loop.simps) (simp add: group_bytes_def Let_def)
  show "v6_loop acc ell (hex_nat g @ colon # s1) = v6_loop (acc @ group_bytes g) ell s1" if "s1 \<noteq> []" "hd s1 \<noteq> colon"
    using assms g take_hex [of "colon # s1" g] that by (subst v6_loop.simps) (simp add: group_bytes_def Let_def)
  show "v6_loop acc None (hex_nat g @ colon # colon # s2) =
       (if s2 = [] then Some (acc @ group_bytes g, Some (length acc + 2)) else v6_loop (acc @ group_bytes g) (Some (length acc + 2)) s2)"
    using assms g take_hex [of "colon # colon # s2" g] by (subst v6_loop.simps) (simp add: group_bytes_def Let_def)
qed

text \<open>Groups separated by colons.\<close>

fun colons :: "nat list \<Rightarrow> bytes" where
  "colons [] = []"
| "colons [g] = hex_nat g"
| "colons (g # h # gs) = hex_nat g @ colon # colons (h # gs)"

lemma hex_hd: "hd (hex_nat g @ x) \<noteq> colon"
proof -
  have "is_digit 16 (hd (hex_nat g))" by (intro hex_nat_digits [of _ g]) simp
  then show ?thesis by (auto simp: hd_append)
qed

lemma colons_hd: "gs \<noteq> [] \<Longrightarrow> colons gs \<noteq> [] \<and> hd (colons gs @ x) \<noteq> colon"
  using hex_hd by (cases gs rule: colons.cases) auto

lemma v6_colons:
  "gs \<noteq> [] \<Longrightarrow> \<forall>g \<in> set gs. g < 65536 \<Longrightarrow> length acc + 2 * length gs \<le> 16 \<Longrightarrow>
    v6_loop acc ell (colons gs) = Some (acc @ concat (map group_bytes gs), ell)"
proof (induction gs arbitrary: acc rule: colons.induct)
  case (3 g h gs)
  have len: "length acc < 16" "length (acc @ group_bytes g) + 2 * length (h # gs) \<le> 16"
    using 3(4) by (simp_all add: group_bytes_def)
  have "v6_loop acc ell (colons (g # h # gs)) = v6_loop (acc @ group_bytes g) ell (colons (h # gs))"
    using v6_group(2) [of acc g "colons (h # gs)"] len(1) 3(3) colons_hd [of "h # gs" "[]"] by simp
  then show ?case using 3(1) [OF _ _ len(2)] 3(3) by simp
qed (simp_all add: v6_group)

lemma v6_colons_ellipsis:
  "gs \<noteq> [] \<Longrightarrow> \<forall>g \<in> set gs. g < 65536 \<Longrightarrow> length acc + 2 * length gs \<le> 16 \<Longrightarrow>
    acc' = acc @ concat (map group_bytes gs) \<Longrightarrow>
    v6_loop acc None (colons gs @ colon # colon # s2) =
      (if s2 = [] then Some (acc', Some (length acc')) else v6_loop acc' (Some (length acc')) s2)"
proof (induction gs arbitrary: acc rule: colons.induct)
  case (2 g)
  then show ?case using v6_group(3) [of acc g s2] by (simp add: group_bytes_def)
next
  case (3 g h gs)
  have len: "length acc < 16" "length (acc @ group_bytes g) + 2 * length (h # gs) \<le> 16"
    using 3(4) by (simp_all add: group_bytes_def)
  have "v6_loop acc None (colons (g # h # gs) @ colon # colon # s2)
      = v6_loop (acc @ group_bytes g) None (colons (h # gs) @ colon # colon # s2)"
    using v6_group(2) [of acc g "colons (h # gs) @ colon # colon # s2"] len(1) 3(3) colons_hd [of "h # gs" "[]"] by (simp add: hd_append)
  then show ?case using 3(1) [OF _ _ len(2)] 3(3,5) by simp
qed simp

section \<open>What \<open>IP.String\<close> prints\<close>

lemma v6_groups_facts [simp]: "length (v6_groups a) = 8" "g \<in> set (v6_groups a) \<Longrightarrow> g < 65536"
proof -
  have "unat b \<le> 255" for b :: byte using unsigned_less [of b, where ?'a = nat] by simp
  then have "256 * unat x + unat y < 65536" for x y :: byte
    using add_mono [OF mult_le_mono2, of "unat x" 255 "unat y" 255 256] by (simp add: less_Suc_eq_le)
  then show "g \<in> set (v6_groups a) \<Longrightarrow> g < 65536" by (auto simp: v6_groups_def)
qed (simp add: v6_groups_def)

lemma group_bytes_groups:
  assumes "length a = 16"
  shows "concat (map group_bytes (v6_groups a)) = a"
proof -
  have "group_bytes (256 * unat x + unat y) = [x, y]" for x y :: byte
    using unsigned_less [of y, where ?'a = nat] by (simp add: group_bytes_def)
  then have "concat (map group_bytes (v6_groups a)) = map ((!) a) [0..<16]"
    by (simp add: v6_groups_def upt_rec numeral_eq_Suc)
  then show ?thesis using assms map_nth [of a] by simp
qed

lemma zero_run_facts:
  assumes "length gs = 8" "zero_run gs = Some (s, e)"
  shows "s + 2 \<le> e" "e \<le> 8" "take s gs @ replicate (e - s) 0 @ drop e gs = gs"
proof -
  define P where "P best \<longleftrightarrow> (case best of None \<Rightarrow> True
      | Some (s, e) \<Rightarrow> s + 2 \<le> e \<and> e \<le> 8 \<and> (\<forall>k. s \<le> k \<and> k < e \<longrightarrow> gs ! k = 0))" for best
  define f where "f best i = (let l = zero_run_at gs i
     in if l \<ge> 2 \<and> (case best of None \<Rightarrow> True | Some (s, e) \<Rightarrow> l > e - s) then Some (i, i + l) else best)" for best i
  have step: "P (f best i)" if "P best" "i < 8" for best i
  proof -
    let ?l = "zero_run_at gs i"
    have "?l \<le> 8 - i" using length_takeWhile_le [of "\<lambda>g. g = 0" "drop i gs"] assms(1) by (simp add: zero_run_at_def)
    moreover have "gs ! k = 0" if "i \<le> k" "k < i + ?l" for k
      using that nth_mem [of "k - i" "takeWhile (\<lambda>g. g = 0) (drop i gs)"] takeWhile_nth [of "k - i" "\<lambda>g. g = 0" "drop i gs"]
        set_takeWhileD assms(1) \<open>?l \<le> 8 - i\<close> unfolding zero_run_at_def by fastforce
    ultimately show ?thesis using that by (auto simp: P_def f_def Let_def)
  qed
  have "P (foldl f best xs)" if "P best" "\<forall>i \<in> set xs. i < 8" for best xs
    using that step by (induction xs arbitrary: best) auto
  then have "P (zero_run gs)" unfolding zero_run_def f_def [symmetric] by (simp add: P_def)
  then have p: "s + 2 \<le> e" "e \<le> 8" "\<forall>k. s \<le> k \<and> k < e \<longrightarrow> gs ! k = 0" using assms(2) by (simp_all add: P_def)
  then show "s + 2 \<le> e" "e \<le> 8" by simp_all
  show "take s gs @ replicate (e - s) 0 @ drop e gs = gs"
    using p assms(1) by (intro nth_equalityI) (auto simp: nth_append)
qed

text \<open>After the first group, each group has its colon.\<close>

lemma colons_Cons: "colons (g # gs) = hex_nat g @ concat (map (\<lambda>h. colon # hex_nat h) gs)"
  by (induction gs arbitrary: g) simp_all

lemma v6_emit_rest:
  assumes "length gs = 8" "0 < i" "case z of None \<Rightarrow> True | Some (s, e) \<Rightarrow> s < i"
  shows "v6_emit gs z i = concat (map (\<lambda>h. colon # hex_nat h) (drop i gs))"
  using assms(2,3)
proof (induction "8 - i" arbitrary: i)
  case 0
  then show ?case using assms(1) by (subst v6_emit.simps) simp
next
  case (Suc n)
  have "drop i gs = gs ! i # drop (Suc i) gs" using Suc(2) assms(1) by (simp add: Cons_nth_drop_Suc)
  then show ?case
    using Suc Suc(1) [of "Suc i"] by (subst v6_emit.simps) (auto split: option.splits)
qed

lemma v6_emit_before:
  assumes "length gs = 8" "s \<le> 8" "0 < i" "i \<le> s"
  shows "v6_emit gs (Some (s, e)) i = concat (map (\<lambda>h. colon # hex_nat h) (drop i (take s gs))) @ v6_emit gs (Some (s, e)) s"
  using assms(3,4)
proof (induction "s - i" arbitrary: i)
  case (Suc n)
  then have "drop i (take s gs) = gs ! i # drop (Suc i) (take s gs)"
    using assms(1,2) by (simp add: Cons_nth_drop_Suc [symmetric])
  moreover have "v6_emit gs (Some (s, e)) (Suc i)
      = concat (map (\<lambda>h. colon # hex_nat h) (drop (Suc i) (take s gs))) @ v6_emit gs (Some (s, e)) s"
    using Suc by (intro Suc(1)) simp_all
  moreover have "0 < i" "i \<noteq> s" "i < 8" using Suc(2,3) assms(2) by simp_all
  then have "v6_emit gs (Some (s, e)) i = colon # hex_nat (gs ! i) @ v6_emit gs (Some (s, e)) (Suc i)"
    by (subst v6_emit.simps) simp
  ultimately show ?case by simp
qed simp

lemma v6_emit_at:
  assumes "length gs = 8" "s + 2 \<le> e" "e \<le> 8"
  shows "v6_emit gs (Some (s, e)) s = [colon, colon] @ colons (drop e gs)"
proof (cases "e = 8")
  case True
  then show ?thesis using assms by (subst v6_emit.simps) simp
next
  case False
  then have "drop e gs = gs ! e # drop (Suc e) gs" using assms by (simp add: Cons_nth_drop_Suc)
  then show ?thesis using assms False v6_emit_rest [of gs "Suc e" "Some (s, e)"]
    by (subst v6_emit.simps) (simp add: colons_Cons)
qed

lemma ipv6_string_eq:
  "ipv6_string a = (case zero_run (v6_groups a) of
     None \<Rightarrow> colons (v6_groups a)
   | Some (s, e) \<Rightarrow> colons (take s (v6_groups a)) @ [colon, colon] @ colons (drop e (v6_groups a)))"
proof -
  define gs where "gs = v6_groups a"
  have len: "length gs = 8" by (simp add: gs_def)
  then have hd: "gs = gs ! 0 # drop (Suc 0) gs" using Cons_nth_drop_Suc [of 0 gs] by simp
  show ?thesis
  proof (cases "zero_run gs")
    case None
    have "v6_emit gs None 0 = hex_nat (gs ! 0) @ concat (map (\<lambda>h. colon # hex_nat h) (drop (Suc 0) gs))"
      using v6_emit_rest [OF len, of "Suc 0" None] by (subst v6_emit.simps) simp
    also have "\<dots> = colons gs" using colons_Cons [of "gs ! 0" "drop (Suc 0) gs"] hd by simp
    finally show ?thesis using None by (simp add: ipv6_string_def gs_def)
  next
    case (Some z)
    obtain s e where z: "z = (s, e)" by (cases z)
    note f = zero_run_facts [OF len Some [unfolded z]]
    show ?thesis
    proof (cases "s = 0")
      case True
      then show ?thesis using v6_emit_at [OF len f(1,2)] Some z by (simp add: ipv6_string_def gs_def)
    next
      case False
      then have "v6_emit gs (Some (s, e)) 0 = hex_nat (gs ! 0)
          @ concat (map (\<lambda>h. colon # hex_nat h) (drop (Suc 0) (take s gs))) @ [colon, colon] @ colons (drop e gs)"
        using v6_emit_before [OF len, of s "Suc 0" e] v6_emit_at [OF len f(1,2)] f(1,2) by (subst v6_emit.simps) simp
      moreover have "take s gs = gs ! 0 # drop (Suc 0) (take s gs)"
        using False len Cons_nth_drop_Suc [of 0 "take s gs"] by simp
      then have "colons (take s gs) = hex_nat (gs ! 0) @ concat (map (\<lambda>h. colon # hex_nat h) (drop (Suc 0) (take s gs)))"
        using colons_Cons by metis
      ultimately show ?thesis using Some z by (simp add: ipv6_string_def gs_def)
    qed
  qed
qed

section \<open>Round trip\<close>

lemma colons_chars: "c \<in> set (colons gs) \<Longrightarrow> is_digit 16 c \<or> c = colon"
  by (induction gs rule: colons.induct) (auto simp: hex_nat_digits)

lemma parse_v6_string:
  assumes "length a = 16"
  shows "parse_v6 (ipv6_string a) = Some a"
proof -
  define gs where "gs = v6_groups a"
  have gs: "length gs = 8" "\<forall>g \<in> set gs. g < 65536" "concat (map group_bytes gs) = a"
    using assms by (simp_all add: gs_def group_bytes_groups)
  show ?thesis
  proof (cases "zero_run gs")
    case None
    have "gs \<noteq> []" using gs(1) by auto
    then have "take 2 (colons gs) \<noteq> [colon, colon]" using colons_hd [of gs "[]"] by (cases "colons gs") auto
    moreover have "v6_loop [] None (colons gs) = Some (a, None)"
      using v6_colons [OF \<open>gs \<noteq> []\<close> gs(2), of "[]" None] gs(1,3) by simp
    ultimately show ?thesis using None assms by (simp add: ipv6_string_eq gs_def parse_v6_def v6_expand_def)
  next
    case (Some z)
    obtain s e where z: "z = (s, e)" by (cases z)
    note f = zero_run_facts [OF gs(1) Some [unfolded z]]
    let ?l = "concat (map group_bytes (take s gs))" and ?r = "concat (map group_bytes (drop e gs))"
    have lens: "length ?l = 2 * s" "length ?r = 2 * (8 - e)" using f(1,2) gs(1) by simp_all
    have "concat (map group_bytes (replicate n 0)) = replicate (2 * n) 0" for n
      by (induction n) (simp_all add: group_bytes_def)
    then have "a = ?l @ replicate (2 * (e - s)) 0 @ ?r" using gs(3) f(3) by (metis concat_append map_append)
    moreover have "16 - (2 * s + 2 * (8 - e)) = 2 * (e - s)" using f(1,2) by simp
    ultimately have ex: "v6_expand (?l @ ?r, Some (2 * s)) = Some a"
      using lens f(1,2) by (simp add: v6_expand_def)
    have right: "v6_loop ?l (Some (2 * s)) (colons (drop e gs)) = Some (?l @ ?r, Some (2 * s))" if "drop e gs \<noteq> []"
      using that gs(1,2) f(1,2) lens(1) by (intro v6_colons) (auto dest: in_set_dropD)
    have str: "ipv6_string a = colons (take s gs) @ [colon, colon] @ colons (drop e gs)"
      using Some z by (simp add: ipv6_string_eq gs_def)
    show ?thesis
    proof (cases "s = 0")
      case True
      then show ?thesis using str right ex f(1,2) gs(1) colons_hd [of "drop e gs" "[]"]
        by (cases "drop e gs = []") (auto simp: parse_v6_def v6_expand_def)
    next
      case False
      then have ne: "take s gs \<noteq> []" using gs(1) by auto
      then have "take 2 (ipv6_string a) \<noteq> [colon, colon]"
        using str colons_hd [OF ne, of "[]"] by (cases "colons (take s gs)") auto
      moreover have "v6_loop [] None (ipv6_string a) = Some (?l @ ?r, Some (2 * s))"
        using v6_colons_ellipsis [OF ne, of "[]" ?l "colons (drop e gs)"] str right lens gs(1,2) f(1,2) colons_hd [of "drop e gs" "[]"]
        by (cases "drop e gs = []") (auto dest: in_set_takeD)
      ultimately show ?thesis using ex by (simp add: parse_v6_def)
    qed
  qed
qed

lemma ipv6_string_chars:
  "set (ipv6_string a) \<subseteq> {c. is_digit 16 c} \<union> {colon}" "colon \<in> set (ipv6_string a)"
proof -
  show "set (ipv6_string a) \<subseteq> {c. is_digit 16 c} \<union> {colon}"
    by (auto simp: ipv6_string_eq dest: colons_chars split: option.split)
  have "v6_groups a = v6_groups a ! 0 # v6_groups a ! 1 # drop 2 (v6_groups a)"
    by (simp add: Cons_nth_drop_Suc numeral_2_eq_2)
  then have "colon \<in> set (colons (v6_groups a))" by (metis UnCI colons.simps(3) list.set_intros(1) set_append)
  then show "colon \<in> set (ipv6_string a)" by (auto simp: ipv6_string_eq split: option.split)
qed

lemma find_unique: "c \<in> set s \<Longrightarrow> P c \<Longrightarrow> \<forall>x \<in> set s. P x \<longrightarrow> x = c \<Longrightarrow> find P s = Some c"
proof (induction s)
  case (Cons y s)
  show ?case
  proof (cases "P y")
    case True
    then have "y = c" using Cons.prems(3) by (meson list.set_intros(1))
    then show ?thesis using True by (simp only: find.simps if_True)
  next
    case False
    then have "c \<in> set s" using Cons.prems(1,2) by (metis set_ConsD)
    then have "find P s = Some c" using Cons.IH Cons.prems(2,3) by (meson list.set_intros(2))
    then show ?thesis using False by (simp only: find.simps if_False)
  qed
qed simp

lemma ipv4_string_chars: "c \<in> set (ipv4_string a) \<Longrightarrow> is_digit 10 c \<or> c = dot"
  using dec_nat_digits by (fastforce simp: ipv4_string_def)

text \<open>Parsing what was printed gives the address back, for every address of 16 bytes.\<close>

lemma ParseIP_IP_String:
  assumes "length a = 16"
  shows "ParseIP (IP_String a) = Some a"
proof (cases "To4 a")
  case None
  have "\<not> is_digit 16 37" "\<not> is_digit 16 dot" by (simp_all add: is_digit_def digit_value_def)
  then have "37 \<notin> set (ipv6_string a)" "dot \<notin> set (ipv6_string a)" using ipv6_string_chars(1) [of a] by auto
  then have "\<forall>x \<in> set (ipv6_string a). x \<in> {dot, colon, 37} \<longrightarrow> x = colon" by blast
  from find_unique [OF ipv6_string_chars(2) _ this] have "find (\<lambda>c. c \<in> {dot, colon, 37}) (ipv6_string a) = Some colon" by simp
  then show ?thesis using None assms \<open>37 \<notin> _\<close> parse_v6_string by (auto simp: IP_String_def ParseIP_def)
next
  case (Some p)
  then have t: "take 10 a = replicate 10 0" "a ! 10 = 255" "a ! 11 = 255" "p = drop 12 a"
    using assms by (auto simp: To4_def split: if_splits)
  have "drop 10 a = a ! 10 # a ! 11 # drop 12 a"
    using Cons_nth_drop_Suc [of 10 a] Cons_nth_drop_Suc [of 11 a] assms by simp
  then have p: "length p = 4" "a = replicate 10 0 @ [255, 255] @ p"
    using append_take_drop_id [of 10 a] t assms by simp_all
  have "\<not> is_digit 10 37" "\<not> is_digit 10 colon" by (simp_all add: is_digit_def digit_value_def)
  then have "\<forall>x \<in> set (ipv4_string p). x \<in> {dot, colon, 37} \<longrightarrow> x = dot" using ipv4_string_chars by blast
  moreover have "dot \<in> set (ipv4_string p)" by (simp add: ipv4_string_def)
  ultimately have "find (\<lambda>c. c \<in> {dot, colon, 37}) (ipv4_string p) = Some dot"
    using find_unique [of dot "ipv4_string p" "\<lambda>c. c \<in> {dot, colon, 37}"] by blast
  then show ?thesis using Some assms p parse_v4_string by (auto simp: IP_String_def ParseIP_def)
qed

lemma IP_String_inject:
  "length a = 16 \<Longrightarrow> length b = 16 \<Longrightarrow> IP_String a = IP_String b \<longleftrightarrow> a = b"
  by (metis ParseIP_IP_String option.inject)

lemma v4_loop_length: "v4_loop fs v n s = Some r \<Longrightarrow> length fs \<le> 3 \<Longrightarrow> length r = 4"
  by (induction fs v n s rule: v4_loop.induct) (auto simp: Let_def split: if_splits)

lemma v6_expand_length: "v6_expand r = Some a \<Longrightarrow> length a = 16"
  by (cases r) (auto simp: v6_expand_def split: option.splits if_splits)

text \<open>A parsed address has 16 bytes.\<close>

lemma ParseIP_length: "ParseIP s = Some a \<Longrightarrow> length a = 16"
  by (auto simp: ParseIP_def parse_v4_def parse_v6_def bind_eq_Some_conv dest: v4_loop_length v6_expand_length
      split: option.splits if_splits)

section \<open>\<open>time.ParseDuration\<close>\<close>

text \<open>The units, in nanoseconds; the micro sign may be either of two characters.\<close>

definition unit_map :: "(bytes \<times> nat) list" where
  "unit_map = [(str ''ns'', 1), (str ''us'', 10 ^ 3), ([0xC2, 0xB5, 115], 10 ^ 3), ([0xCE, 0xBC, 115], 10 ^ 3),
     (str ''ms'', 10 ^ 6), (str ''s'', 10 ^ 9), (str ''m'', 60 * 10 ^ 9), (str ''h'', 3600 * 10 ^ 9)]"

text \<open>\<open>leadingInt\<close>: \<open>None\<close> on overflow.\<close>

fun leading_int :: "nat \<Rightarrow> bytes \<Rightarrow> (nat \<times> bytes) option" where
  "leading_int x [] = Some (x, [])"
| "leading_int x (c # cs) =
     (if \<not> is_digit 10 c then Some (x, c # cs)
      else if x > 2 ^ 63 div 10 then None
      else let x' = x * 10 + the (digit_value c) in if x' > 2 ^ 63 then None else leading_int x' cs)"

text \<open>\<open>leadingFraction\<close>: digits beyond the range are skipped.\<close>

fun leading_fraction :: "nat \<Rightarrow> rat \<Rightarrow> bool \<Rightarrow> bytes \<Rightarrow> nat \<times> rat \<times> bytes" where
  "leading_fraction x scale over [] = (x, scale, [])"
| "leading_fraction x scale over (c # cs) =
     (if \<not> is_digit 10 c then (x, scale, c # cs)
      else if over \<or> x > (2 ^ 63 - 1) div 10 then leading_fraction x scale True cs
      else let y = x * 10 + the (digit_value c)
        in if y > 2 ^ 63 then leading_fraction x scale True cs
           else leading_fraction y (round53 (scale * 10)) False cs)"

lemma leading_int_length: "leading_int x s = Some (v, r) \<Longrightarrow> length r \<le> length s"
  by (induction x s rule: leading_int.induct) (auto simp: Let_def split: if_splits)

lemma leading_fraction_length: "leading_fraction x sc b s = (f, sc', r) \<Longrightarrow> length r \<le> length s"
  by (induction x sc b s rule: leading_fraction.induct) (auto simp: Let_def split: if_splits)

text \<open>The optional fraction: its digits, its scale, what follows, and whether it had a digit.\<close>

definition fraction :: "bytes \<Rightarrow> nat \<times> rat \<times> bytes \<times> bool" where
  "fraction s = (if s \<noteq> [] \<and> hd s = dot
     then let (f, scale, r) = leading_fraction 0 1 False (tl s) in (f, scale, r, length r \<noteq> length (tl s))
     else (0, 1, s, False))"

lemma fraction_length: "fraction s = (f, sc, r, post) \<Longrightarrow> length r \<le> length s"
  using leading_fraction_length [of 0 1 False "tl s"]
  by (cases s) (fastforce simp: fraction_def Let_def split: if_splits prod.splits)+

lemma rest_shorter:
  assumes "leading_int 0 s = Some (v, s1)" "(f, sc, s2, post) = fraction s1" "takeWhile P s2 \<noteq> []"
  shows "length s2 - length (takeWhile P s2) < length s"
proof -
  have "0 < length (takeWhile P s2)" "length (takeWhile P s2) \<le> length s2" using assms(3) length_takeWhile_le by auto
  moreover have "length s2 \<le> length s1" "length s1 \<le> length s"
    using fraction_length [OF assms(2) [symmetric]] leading_int_length [OF assms(1)] by simp_all
  ultimately show ?thesis by linarith
qed

text \<open>Numbers with units, added up in 64 bits.\<close>

function duration_loop :: "nat \<Rightarrow> bytes \<Rightarrow> nat option" where
  "duration_loop d s =
     (if s = [] then Some d
      else if hd s \<noteq> dot \<and> \<not> is_digit 10 (hd s) then None
      else case leading_int 0 s of
          None \<Rightarrow> None
        | Some (v, s1) \<Rightarrow>
            (case fraction s1 of (f, scale, s2, post) \<Rightarrow>
              let u = takeWhile (\<lambda>c. c \<noteq> dot \<and> \<not> is_digit 10 c) s2
              in if length s1 = length s \<and> \<not> post \<or> u = [] then None
                 else case map_of unit_map u of
                     None \<Rightarrow> None
                   | Some n \<Rightarrow>
                       if v > 2 ^ 63 div n then None
                       else let v2 = v * n + (if f > 0 then nat \<lfloor>round53 (round53 (of_nat f) * round53 (of_nat n / scale))\<rfloor> else 0);
                                d2 = (d + v2) mod 2 ^ 64
                            in if v2 > 2 ^ 63 \<or> d2 > 2 ^ 63 then None
                               else duration_loop d2 (drop (length u) s2)))"
  by pat_completeness auto
termination
  by (relation "measure (\<lambda>(d, s). length s)") (auto intro: rest_shorter)

declare duration_loop.simps [simp del]

definition ParseDuration :: "bytes \<Rightarrow> duration option" where
  "ParseDuration s0 =
     (let neg = (s0 \<noteq> [] \<and> hd s0 = 45);
          s = (if s0 \<noteq> [] \<and> (hd s0 = 45 \<or> hd s0 = 43) then tl s0 else s0)
      in if s = [48] then Some 0
         else if s = [] then None
         else case duration_loop 0 s of
             None \<Rightarrow> None
           | Some d \<Rightarrow> if neg then Some (- int d) else if d > 2 ^ 63 - 1 then None else Some (int d))"

text \<open>A number with one unit means itself, as long as it fits.\<close>

lemma leading_int_number:
  assumes "n \<le> 2 ^ 63" "rest = [] \<or> \<not> is_digit 10 (hd rest)"
  shows "leading_int 0 (dec_nat n @ rest) = Some (n, rest)"
proof -
  have step: "leading_int 0 (dec_nat m @ r) = leading_int m r" if "m \<le> 2 ^ 63" for m r
    using that
  proof (induction m arbitrary: r rule: dec_nat.induct)
    case (1 m)
    show ?case
    proof (cases "m < 10")
      case True
      then have "dec_nat m = [hex_digit m]" by (subst dec_nat.simps) simp
      with True show ?thesis by (simp add: Let_def)
    next
      case False
      then have eq: "dec_nat m = dec_nat (m div 10) @ [hex_digit (m mod 10)]" by (subst dec_nat.simps) simp
      have "m div 10 \<le> 2 ^ 63 div 10" using 1(2) by (rule div_le_mono)
      moreover have "leading_int 0 (dec_nat (m div 10) @ ([hex_digit (m mod 10)] @ r)) = leading_int (m div 10) ([hex_digit (m mod 10)] @ r)"
        by (rule 1(1)) (use False 1(2) in simp_all)
      ultimately show ?thesis using 1(2) by (simp add: eq Let_def)
    qed
  qed
  show ?thesis unfolding step [OF assms(1)] using assms(2) by (cases rest) auto
qed

lemma unit_map_chars:
  assumes "(u, m) \<in> set unit_map"
  shows "u \<noteq> []" "c \<in> set u \<Longrightarrow> c \<noteq> dot \<and> \<not> is_digit 10 c" "map_of unit_map u = Some m" "0 < m"
  using assms by (auto simp: unit_map_def str_def is_digit_def digit_value_def)

lemma duration_loop_unit:
  assumes u: "(u, m) \<in> set unit_map" and n: "n * m \<le> 2 ^ 63"
  shows "duration_loop 0 (dec_nat n @ u) = Some (n * m)"
proof -
  note uc = unit_map_chars [OF u]
  have le: "n \<le> 2 ^ 63 div m" using n uc(4) by (simp add: less_eq_div_iff_mult_less_eq)
  then have "n \<le> 2 ^ 63" by (meson div_le_dividend order_trans)
  moreover have nd: "hd u \<noteq> dot" "\<not> is_digit 10 (hd u)" using uc(1,2) by auto
  ultimately have int: "leading_int 0 (dec_nat n @ u) = Some (n, u)" by (simp add: leading_int_number)
  have "hd (dec_nat n) \<in> set (dec_nat n)" by simp
  then have dig: "is_digit 10 (hd (dec_nat n))" using dec_nat_digits by fastforce
  have fr: "fraction u = (0, 1, u, False)" using nd by (simp add: fraction_def)
  have tw: "takeWhile (\<lambda>c. c \<noteq> dot \<and> \<not> is_digit 10 c) u = u" using uc(2) by simp
  have "n * m mod 2 ^ 64 = n * m" using n by simp
  then show ?thesis
    using le n uc(1) dig
    by (subst duration_loop.simps) (simp add: int fr tw uc(3) Let_def duration_loop.simps [of _ "[]"])
qed

lemma ParseDuration_unit:
  assumes "(u, m) \<in> set unit_map" "n * m < 2 ^ 63"
  shows "ParseDuration (dec_nat n @ u) = Some (int (n * m))"
proof -
  obtain d where d: "d < 10" "hd (dec_nat n) = hex_digit d" using dec_nat_digits [of "hd (dec_nat n)" n] by auto
  then have "unat (hd (dec_nat n)) = 48 + d" by (simp add: unat_hex_digit)
  then have "hd (dec_nat n) \<noteq> 45 \<and> hd (dec_nat n) \<noteq> 43" by auto
  moreover have "dec_nat n @ u \<noteq> [48]"
    using unit_map_chars(1) [OF assms(1)] by (metis append_is_Nil_conv append_eq_Cons_conv dec_nat_nonempty)
  ultimately show ?thesis
    using duration_loop_unit [OF assms(1)] assms(2) by (simp add: ParseDuration_def)
qed

end
