(* ===== verification/Config.thy ===== *)
theory Config
  imports Go_Parse
begin

text \<open>
  Configuration, \<open>src/config/config.go\<close>: defaults from the environment, validation and derived fields.
  The \<open>flag\<close> package is a parameter: \<open>os_flagParse\<close> maps the defaults to the values after the command
  line was read.  \<open>strconv.ParseFloat\<close> and \<open>net.InterfaceByName\<close> are parameters too;
  \<open>net.ParseIP\<close> and \<open>time.ParseDuration\<close> are those of \<open>Go_Parse\<close>; \<open>Atoi\<close>, \<open>ParseBool\<close>, \<open>ParseUint\<close>, \<open>TrimSpace\<close> and
  \<open>Split\<close> are modelled.  Strings are byte lists.
\<close>

section \<open>Standard library\<close>

text \<open>White space as \<open>strings.TrimSpace\<close> sees it, each rune in UTF-8.\<close>

definition space_runes :: "bytes list" where
  "space_runes = [[9], [10], [11], [12], [13], [32], [0xC2, 0x85], [0xC2, 0xA0], [0xE1, 0x9A, 0x80]]
     @ map (\<lambda>b. [0xE2, 0x80, b]) [0x80, 0x81, 0x82, 0x83, 0x84, 0x85, 0x86, 0x87, 0x88, 0x89, 0x8A, 0xA8, 0xA9, 0xAF]
     @ [[0xE2, 0x81, 0x9F], [0xE3, 0x80, 0x80]]"

definition starts :: "bytes \<Rightarrow> bytes \<Rightarrow> bool" where
  "starts p s \<longleftrightarrow> take (length p) s = p"

function trim_left :: "bytes list \<Rightarrow> bytes \<Rightarrow> bytes" where
  "trim_left ps s = (case find (\<lambda>p. p \<noteq> [] \<and> starts p s) ps of
     None \<Rightarrow> s | Some p \<Rightarrow> trim_left ps (drop (length p) s))"
  by pat_completeness auto
termination
proof (relation "measure (\<lambda>(ps, s). length s)")
  fix ps s p assume "find (\<lambda>p. p \<noteq> [] \<and> starts p s) ps = Some p"
  then have "p \<noteq> [] \<and> starts p s" by (auto simp: find_Some_iff)
  then have "0 < length p" "s \<noteq> []" by (auto simp: starts_def)
  then show "((ps, drop (length p) s), ps, s) \<in> measure (\<lambda>(ps, s). length s)" by simp
qed simp

declare trim_left.simps [simp del]

definition TrimSpace :: "bytes \<Rightarrow> bytes" where
  "TrimSpace s = rev (trim_left (map rev space_runes) (rev (trim_left space_runes s)))"

fun split_on :: "byte \<Rightarrow> bytes \<Rightarrow> bytes list" where
  "split_on c [] = [[]]"
| "split_on c (x # xs) = (if x = c then [] # split_on c xs
     else case split_on c xs of [] \<Rightarrow> [[x]] | y # ys \<Rightarrow> (x # y) # ys)"

fun parse_digits :: "nat \<Rightarrow> nat \<Rightarrow> nat \<Rightarrow> bytes \<Rightarrow> nat option" where
  "parse_digits base mx n [] = Some n"
| "parse_digits base mx n (c # cs) =
     (case digit_value c of
        None \<Rightarrow> None
      | Some d \<Rightarrow> if d \<ge> base then None
          else if n * base + d > mx then None else parse_digits base mx (n * base + d) cs)"

text \<open>\<open>strconv.ParseUint(s, base, 16)\<close> and \<open>strconv.Atoi\<close>; every error is \<open>None\<close>.\<close>

definition ParseUint16 :: "bytes \<Rightarrow> nat \<Rightarrow> nat option" where
  "ParseUint16 s base = (if s = [] then None else parse_digits base (2 ^ 16 - 1) 0 s)"

definition Atoi :: "bytes \<Rightarrow> int option" where
  "Atoi s = (case s of [] \<Rightarrow> None
     | c # cs \<Rightarrow>
         if c = 45 then (if cs = [] then None else map_option (\<lambda>n. - int n) (parse_digits 10 (2 ^ 63) 0 cs))
         else let ds = (if c = 43 then cs else s)
              in if ds = [] then None else map_option int (parse_digits 10 (2 ^ 63 - 1) 0 ds))"

definition ParseBool :: "bytes \<Rightarrow> bool option" where
  "ParseBool s =
     (if s \<in> set (map str [''1'', ''t'', ''T'', ''true'', ''TRUE'', ''True'']) then Some True
      else if s \<in> set (map str [''0'', ''f'', ''F'', ''false'', ''FALSE'', ''False'']) then Some False
      else None)"

section \<open>Configuration\<close>

definition Scopes :: "(bytes \<times> u16) list" where
  "Scopes = [(str ''link'', 0xFF02), (str ''site'', 0xFF05), (str ''org'', 0xFF08), (str ''global'', 0xFF0E)]"

record config =
  MCIface :: bytes
  ListenPort :: int
  ShardBits :: u64
  NumGroups :: u32
  MCScope :: bytes
  MCPrefix :: u16
  MCGroupID :: u16
  CacheBackend :: bytes
  RedisAddr :: bytes
  CacheTTL :: duration
  CacheMaxKeys :: int
  NACKPort :: int
  NACKWorkers :: int
  EgressIfaces :: "bytes list"
  EgressPort :: int
  DedupWindow :: duration
  RLIPRate :: f64
  RLIPBurst :: int
  RLSenderRate :: f64
  RLSenderWindow :: duration
  RLChainRate :: f64
  RLChainWindow :: duration
  RLSequenceMax :: int
  RLSequenceWindow :: duration
  RLGroupRate :: f64
  RLGroupBurst :: int
  NumWorkers :: int
  Debug :: bool
  DrainTimeout :: duration
  MetricsAddr :: bytes
  InstanceID :: bytes
  OTLPEndpoint :: bytes
  OTLPInterval :: duration
  BeaconEnabled :: bool
  BeaconTier :: u64
  BeaconPreference :: u64
  BeaconInterval :: duration
  BeaconScope :: bytes
  BeaconScopeByte :: byte
  BeaconFlagsUnicast :: bool
  BeaconFlagsMulticast :: bool
  BeaconFlagsDraining :: bool
  BeaconNACKAddr :: bytes
  SubtreeDataEnabled :: bool
  SuppressACK :: bool
  SuppressMISS :: bool

text \<open>The flags that \<open>Load\<close> keeps in local variables.\<close>

record load_locals =
  l_egressFlag :: bytes
  l_groupIDFlag :: bytes
  l_otlpInterval :: duration
  l_bits :: u64
  l_beaconTier :: u64
  l_beaconPref :: u64

record os_env =
  os_Getenv :: "bytes \<Rightarrow> bytes"
  os_NumCPU :: int
  os_ParseFloat :: "bytes \<Rightarrow> f64 option"
  os_InterfaceByName :: "bytes \<Rightarrow> int option"
  os_flagParse :: "config \<times> load_locals \<Rightarrow> config \<times> load_locals"

definition envStr :: "os_env \<Rightarrow> string \<Rightarrow> string \<Rightarrow> bytes" where
  "envStr os key df = (let v = os_Getenv os (str key) in if v \<noteq> [] then v else str df)"

definition envInt :: "os_env \<Rightarrow> string \<Rightarrow> int \<Rightarrow> int" where
  "envInt os key df = (let v = os_Getenv os (str key) in
     if v \<noteq> [] then (case Atoi v of Some n \<Rightarrow> n | None \<Rightarrow> df) else df)"

definition envBool :: "os_env \<Rightarrow> string \<Rightarrow> bool \<Rightarrow> bool" where
  "envBool os key df = (let v = os_Getenv os (str key) in
     if v \<noteq> [] then (case ParseBool v of Some b \<Rightarrow> b | None \<Rightarrow> df) else df)"

definition envFloat :: "os_env \<Rightarrow> string \<Rightarrow> f64 \<Rightarrow> f64" where
  "envFloat os key df = (let v = os_Getenv os (str key) in
     if v \<noteq> [] then (case os_ParseFloat os v of Some f \<Rightarrow> f | None \<Rightarrow> df) else df)"

definition envDuration :: "os_env \<Rightarrow> string \<Rightarrow> duration \<Rightarrow> duration" where
  "envDuration os key df = (let v = os_Getenv os (str key) in
     if v \<noteq> [] then (case ParseDuration v of Some d \<Rightarrow> d | None \<Rightarrow> df) else df)"

definition parseGroupID :: "bytes \<Rightarrow> err + u16" where
  "parseGroupID s0 =
     (let s = TrimSpace s0
      in if s = [] then Inl (Err ''empty value'')
         else let (s', base) =
                (if starts (str ''0x'') s \<or> starts (str ''0X'') s then (drop 2 s, 16)
                 else if ParseUint16 s 10 = None then (s, 16)
                 else (s, 10))
              in case ParseUint16 s' base of
                   None \<Rightarrow> Inl (Err ''ParseUint'')
                 | Some n \<Rightarrow> Inr (of_nat n))"

section \<open>Loading\<close>

text \<open>The flag definitions of \<open>Load\<close>: every flag with its default from the environment; fields without
  a flag are zero.  \<open>uint(envInt(...))\<close> wraps a negative value.\<close>

definition load_defaults :: "os_env \<Rightarrow> config \<times> load_locals" where
  "load_defaults os =
    (\<lparr>MCIface = envStr os ''MC_IFACE'' ''eth0'',
      ListenPort = envInt os ''LISTEN_PORT'' 9001,
      ShardBits = 0, NumGroups = 0,
      MCScope = envStr os ''MC_SCOPE'' ''site'',
      MCPrefix = 0, MCGroupID = 0,
      CacheBackend = envStr os ''CACHE_BACKEND'' ''memory'',
      RedisAddr = envStr os ''REDIS_ADDR'' [],
      CacheTTL = envDuration os ''CACHE_TTL'' (60 * second),
      CacheMaxKeys = envInt os ''CACHE_MAX_KEYS'' 0,
      NACKPort = envInt os ''NACK_PORT'' 9300,
      NACKWorkers = envInt os ''NACK_WORKERS'' (os_NumCPU os),
      EgressIfaces = [],
      EgressPort = envInt os ''EGRESS_PORT'' 9001,
      DedupWindow = envDuration os ''DEDUP_WINDOW'' (60 * second),
      RLIPRate = envFloat os ''RL_IP_RATE'' (Fin 100),
      RLIPBurst = envInt os ''RL_IP_BURST'' 10,
      RLSenderRate = envFloat os ''RL_SENDER_RATE'' (Fin 0),
      RLSenderWindow = envDuration os ''RL_SENDER_WINDOW'' 0,
      RLChainRate = envFloat os ''RL_CHAIN_RATE'' (Fin 500),
      RLChainWindow = envDuration os ''RL_CHAIN_WINDOW'' minute,
      RLSequenceMax = envInt os ''RL_SEQUENCE_MAX'' 100,
      RLSequenceWindow = envDuration os ''RL_SEQUENCE_WINDOW'' minute,
      RLGroupRate = envFloat os ''RL_GROUP_RATE'' (Fin 200),
      RLGroupBurst = envInt os ''RL_GROUP_BURST'' 50,
      NumWorkers = 0,
      Debug = envBool os ''DEBUG'' False,
      DrainTimeout = envDuration os ''DRAIN_TIMEOUT'' 0,
      MetricsAddr = envStr os ''METRICS_ADDR'' '':9400'',
      InstanceID = envStr os ''INSTANCE_ID'' [],
      OTLPEndpoint = envStr os ''OTLP_ENDPOINT'' [],
      OTLPInterval = 0,
      BeaconEnabled = envBool os ''BEACON_ENABLED'' True,
      BeaconTier = 0, BeaconPreference = 0,
      BeaconInterval = envDuration os ''BEACON_INTERVAL'' (60 * second),
      BeaconScope = envStr os ''BEACON_SCOPE'' ''site'',
      BeaconScopeByte = 0,
      BeaconFlagsUnicast = envBool os ''BEACON_FLAGS_UNICAST'' False,
      BeaconFlagsMulticast = envBool os ''BEACON_FLAGS_MULTICAST'' True,
      BeaconFlagsDraining = envBool os ''BEACON_FLAGS_DRAINING'' False,
      BeaconNACKAddr = envStr os ''NACK_ADDR'' [],
      SubtreeDataEnabled = envBool os ''SUBTREE_DATA_ENABLED'' False,
      SuppressACK = envBool os ''SUPPRESS_ACK'' False,
      SuppressMISS = envBool os ''SUPPRESS_MISS'' False\<rparr>,
     \<lparr>l_egressFlag = envStr os ''EGRESS_IFACE'' ''eth0'',
      l_groupIDFlag = envStr os ''MC_GROUP_ID'' ''0x000B'',
      l_otlpInterval = envDuration os ''OTLP_INTERVAL'' (30 * second),
      l_bits = word_of_int (envInt os ''SHARD_BITS'' 8),
      l_beaconTier = word_of_int (envInt os ''BEACON_TIER'' 0),
      l_beaconPref = word_of_int (envInt os ''BEACON_PREFERENCE'' 128)\<rparr>)"

text \<open>The loop over the egress interfaces: empty names are skipped, the first unknown one is an error.\<close>

fun egress_names :: "os_env \<Rightarrow> bytes list \<Rightarrow> bytes list \<Rightarrow> err + bytes list" where
  "egress_names os [] acc = Inr acc"
| "egress_names os (x # xs) acc =
     (let name = TrimSpace x
      in if name = [] then egress_names os xs acc
         else if os_InterfaceByName os name = None then Inl (Err ''egress interface not found'')
         else egress_names os xs (acc @ [name]))"

definition beacon_scope_byte :: "bytes \<Rightarrow> byte option" where
  "beacon_scope_byte b =
     (if b = str ''site'' then Some 0x05
      else if b = str ''org'' then Some 0x08
      else if b = str ''global'' then Some 0x0E
      else if b = str ''both'' \<or> b = str ''all'' then Some 0xFF
      else None)"

text \<open>The checks of \<open>-nack-addr\<close>.\<close>

definition bad_nack_addr :: "bytes \<Rightarrow> bool" where
  "bad_nack_addr a \<longleftrightarrow> (case ParseIP a of None \<Rightarrow> True | Some i \<Rightarrow> To16 i = None \<or> To4 i \<noteq> None)"

definition validate :: "os_env \<Rightarrow> config \<times> load_locals \<Rightarrow> err + config" where
  "validate os cl =
     (let (c0, l) = cl;
          c1 = c0\<lparr>BeaconTier := l_beaconTier l, BeaconPreference := l_beaconPref l\<rparr>;
          bits = l_bits l
      in if bits < 1 \<or> bits > 15 then Inl (Err ''shard-bits must be in [1, 15]'')
         else let c2 = c1\<lparr>ShardBits := bits, NumGroups := push_bit (unat bits) 1, OTLPInterval := l_otlpInterval l\<rparr>
              in (case map_of Scopes (MCScope c2) of
                   None \<Rightarrow> Inl (Err ''unknown scope'')
                 | Some pfx \<Rightarrow>
                    (case parseGroupID (l_groupIDFlag l) of
                       Inl e \<Rightarrow> Inl (Err ''invalid -mc-group-id'')
                     | Inr gid \<Rightarrow>
                         let c3 = c2\<lparr>MCPrefix := pfx, MCGroupID := gid\<rparr>
                         in if CacheBackend c3 \<noteq> str ''redis'' \<and> CacheBackend c3 \<noteq> str ''memory''
                            then Inl (Err ''cache-backend'')
                            else let c4 = c3\<lparr>NumWorkers := 1,
                                       NACKWorkers := (if NACKWorkers c3 \<le> 0 then os_NumCPU os else NACKWorkers c3)\<rparr>
                                 in (case egress_names os (split_on 44 (l_egressFlag l)) (EgressIfaces c4) of
                                      Inl e \<Rightarrow> Inl e
                                    | Inr ifs \<Rightarrow>
                                        let c5 = c4\<lparr>EgressIfaces := ifs\<rparr>
                                        in if ifs = [] then Inl (Err ''no egress interface'')
                                           else (case beacon_scope_byte (BeaconScope c5) of
                                               None \<Rightarrow> Inl (Err ''beacon-scope'')
                                             | Some b \<Rightarrow>
                                                 let c6 = c5\<lparr>BeaconScopeByte := b\<rparr>
                                                 in if BeaconTier c6 > 255 then Inl (Err ''beacon-tier'')
                                                    else if BeaconPreference c6 > 255 then Inl (Err ''beacon-preference'')
                                                    else if BeaconInterval c6 < second then Inl (Err ''beacon-interval'')
                                                    else if BeaconNACKAddr c6 \<noteq> [] \<and> bad_nack_addr (BeaconNACKAddr c6)
                                                    then Inl (Err ''nack-addr'')
                                                    else Inr c6)))))"

definition Load :: "os_env \<Rightarrow> err + config" where
  "Load os = validate os (os_flagParse os (load_defaults os))"

section \<open>Lemmas\<close>

text \<open>A duration of the environment written as a number with a unit is taken as it is.\<close>

lemma envDuration_unit:
  "os_Getenv os (str key) = dec_nat n @ u \<Longrightarrow> (u, m) \<in> set unit_map \<Longrightarrow> n * m < 2 ^ 63
    \<Longrightarrow> envDuration os key df = int (n * m)"
  by (simp add: envDuration_def ParseDuration_unit)

text \<open>Strings of digits.\<close>

definition digits :: "nat \<Rightarrow> bytes \<Rightarrow> bool" where
  "digits base cs \<longleftrightarrow> (\<forall>c \<in> set cs. \<exists>d < base. digit_value c = Some d)"

lemma digits_simps [simp]:
  "digits base []" "digits base (c # cs) \<longleftrightarrow> (\<exists>d < base. digit_value c = Some d) \<and> digits base cs"
  by (simp_all add: digits_def)

lemma horner_ge: "1 \<le> base \<Longrightarrow> n \<le> horner base n cs"
proof (induction cs arbitrary: n)
  case (Cons c cs)
  have "n \<le> n * base + the (digit_value c)" using Cons.prems by (simp add: trans_le_add1)
  also have "\<dots> \<le> horner base (n * base + the (digit_value c)) cs" using Cons by blast
  finally show ?case by simp
qed simp

lemma horner_mono: "a \<le> b \<Longrightarrow> m \<le> n \<Longrightarrow> horner a m cs \<le> horner b n cs"
proof (induction cs arbitrary: m n)
  case (Cons c cs)
  have "m * a + the (digit_value c) \<le> n * b + the (digit_value c)" using Cons.prems by (simp add: mult_mono)
  then show ?case using Cons by simp
qed simp

lemma parse_digits_horner:
  "1 \<le> base \<Longrightarrow> n \<le> mx \<Longrightarrow> digits base cs \<Longrightarrow>
    parse_digits base mx n cs = (if horner base n cs \<le> mx then Some (horner base n cs) else None)"
proof (induction cs arbitrary: n)
  case (Cons c cs)
  then obtain d where d: "digit_value c = Some d" "d < base" by auto
  show ?case
  proof (cases "n * base + d \<le> mx")
    case True
    then show ?thesis using Cons d by simp
  next
    case False
    then have "mx < horner base (n * base + d) cs" using horner_ge [OF Cons.prems(1), of "n * base + d" cs] by simp
    then show ?thesis using False d by simp
  qed
qed simp

lemma parse_digits_bad: "\<not> digits base cs \<Longrightarrow> parse_digits base mx n cs = None"
  by (induction cs arbitrary: n) (auto split: option.split)

lemma trim_left_id: "s = [] \<or> (\<forall>p \<in> set ps. p \<noteq> [] \<longrightarrow> hd p \<noteq> hd s) \<Longrightarrow> trim_left ps s = s"
proof -
  assume a: "s = [] \<or> (\<forall>p \<in> set ps. p \<noteq> [] \<longrightarrow> hd p \<noteq> hd s)"
  have "\<not> (p \<noteq> [] \<and> starts p s)" if "p \<in> set ps" for p
    using a that by (cases p; cases s) (auto simp: starts_def)
  then have "find (\<lambda>p. p \<noteq> [] \<and> starts p s) ps = None" by (simp add: find_None_iff)
  then show ?thesis by (simp add: trim_left.simps)
qed

lemma TrimSpace_id:
  assumes "s = [] \<or> hd s \<notin> hd ` set space_runes \<and> last s \<notin> last ` set space_runes"
  shows "TrimSpace s = s"
proof -
  have "trim_left space_runes s = s" using assms by (intro trim_left_id) (metis imageI)
  moreover have "trim_left (map rev space_runes) (rev s) = rev s"
    using assms by (intro trim_left_id) (auto simp: hd_rev intro: rev_image_eqI)
  ultimately show ?thesis by (simp add: TrimSpace_def)
qed

lemma digit_not_space:
  assumes "digit_value c = Some d"
  shows "c \<notin> hd ` set space_runes" "c \<notin> last ` set space_runes"
  using assms by (auto simp: space_runes_def digit_value_def)

lemma TrimSpace_digits: "digits base cs \<Longrightarrow> TrimSpace cs = cs"
proof (rule TrimSpace_id, cases "cs = []")
  case False
  assume "digits base cs"
  then obtain d e where "digit_value (hd cs) = Some d" "digit_value (last cs) = Some e"
    using False unfolding digits_def by (metis hd_in_set last_in_set)
  then show "cs = [] \<or> hd cs \<notin> hd ` set space_runes \<and> last cs \<notin> last ` set space_runes"
    using digit_not_space by blast
qed simp

lemma digits_mono: "a \<le> b \<Longrightarrow> digits a cs \<Longrightarrow> digits b cs"
  by (force simp: digits_def)

lemma digit_x: "digit_value 120 = Some 33" "digit_value 88 = Some 33" "digit_value 48 = Some 0"
  by (simp_all add: digit_value_def)

lemma not_0x: "digits 10 cs \<Longrightarrow> \<not> starts (str ''0x'') cs \<and> \<not> starts (str ''0X'') cs"
proof (cases cs)
  case (Cons a as)
  assume "digits 10 cs"
  then show ?thesis using Cons digit_x by (cases as) (auto simp: starts_def str_def)
qed (simp add: starts_def str_def)

lemma ParseUint16_horner:
  "1 \<le> base \<Longrightarrow> digits base cs \<Longrightarrow> cs \<noteq> [] \<Longrightarrow>
    ParseUint16 cs base = (if horner base 0 cs < 2 ^ 16 then Some (horner base 0 cs) else None)"
  by (auto simp: ParseUint16_def parse_digits_horner)

lemma egress_names_sound:
  "egress_names os xs acc = Inr ifs \<Longrightarrow>
    ifs = acc @ filter (\<lambda>n. n \<noteq> []) (map TrimSpace xs) \<and> (\<forall>n \<in> set ifs - set acc. os_InterfaceByName os n \<noteq> None)"
proof (induction xs arbitrary: acc)
  case (Cons x xs)
  then show ?case by (fastforce simp: Let_def split: if_splits)
qed simp

lemma parseGroupID_dec:
  assumes "cs \<noteq> []" and d: "digits 10 cs"
  shows "parseGroupID cs = (if horner 10 0 cs < 2 ^ 16 then Inr (of_nat (horner 10 0 cs)) else Inl (Err ''ParseUint''))"
proof -
  have "horner 10 0 cs \<le> horner 16 0 cs" by (simp add: horner_mono)
  then show ?thesis
    using assms not_0x [OF d] digits_mono [of 10 16, OF _ d]
    by (simp add: parseGroupID_def TrimSpace_digits [OF d] ParseUint16_horner Let_def)
qed

lemma parseGroupID_hex:
  assumes "cs \<noteq> []" and d: "digits 16 cs"
  shows "parseGroupID (str ''0x'' @ cs) =
    (if horner 16 0 cs < 2 ^ 16 then Inr (of_nat (horner 16 0 cs)) else Inl (Err ''ParseUint''))"
proof -
  have "last cs \<notin> last ` set space_runes"
    using d assms digit_not_space(2) unfolding digits_def by (metis last_in_set)
  moreover have "hd (str ''0x'' @ cs) \<notin> hd ` set space_runes"
    using digit_not_space(1) [OF digit_x(3)] by (simp add: str_def)
  ultimately have "TrimSpace (str ''0x'' @ cs) = str ''0x'' @ cs"
    using assms by (intro TrimSpace_id) simp
  moreover have "starts (str ''0x'') (str ''0x'' @ cs)" "length (str ''0x'') = 2" by (simp_all add: starts_def str_def)
  ultimately show ?thesis using assms by (simp add: parseGroupID_def ParseUint16_horner Let_def)
qed

text \<open>What the checks of \<open>Load\<close> establish.\<close>

lemma load_facts:
  assumes "Load os = Inr c" "1 \<le> os_NumCPU os"
    and "\<And>d. EgressIfaces (fst (os_flagParse os d)) = EgressIfaces (fst d)"
  shows "1 \<le> unat (ShardBits c) \<and> unat (ShardBits c) \<le> 15 \<and> unat (NumGroups c) = 2 ^ unat (ShardBits c)
    \<and> map_of Scopes (MCScope c) = Some (MCPrefix c)
    \<and> EgressIfaces c \<noteq> [] \<and> (\<forall>n \<in> set (EgressIfaces c). n \<noteq> [] \<and> os_InterfaceByName os n \<noteq> None)
    \<and> 1 \<le> NACKWorkers c \<and> NumWorkers c = 1
    \<and> unat (BeaconTier c) \<le> 255 \<and> unat (BeaconPreference c) \<le> 255
    \<and> BeaconScopeByte c \<in> {0x05, 0x08, 0x0E, 0xFF} \<and> second \<le> BeaconInterval c
    \<and> (BeaconNACKAddr c \<noteq> [] \<longrightarrow> \<not> bad_nack_addr (BeaconNACKAddr c))"
proof -
  obtain c0 l where cl: "os_flagParse os (load_defaults os) = (c0, l)" by fastforce
  have e0: "EgressIfaces c0 = []" using assms(3) [of "load_defaults os"] cl by (simp add: load_defaults_def)
  from assms(1) [unfolded Load_def cl] obtain pfx gid ifs b where
    v: "\<not> l_bits l < 1" "\<not> 15 < l_bits l" "map_of Scopes (MCScope c0) = Some pfx"
      "egress_names os (split_on 44 (l_egressFlag l)) [] = Inr ifs" "ifs \<noteq> []"
      "beacon_scope_byte (BeaconScope c0) = Some b"
      "\<not> 255 < l_beaconTier l" "\<not> 255 < l_beaconPref l" "\<not> BeaconInterval c0 < second"
      "\<not> (BeaconNACKAddr c0 \<noteq> [] \<and> bad_nack_addr (BeaconNACKAddr c0))"
    and c: "c = c0\<lparr>BeaconTier := l_beaconTier l, BeaconPreference := l_beaconPref l, ShardBits := l_bits l,
      NumGroups := push_bit (unat (l_bits l)) 1, OTLPInterval := l_otlpInterval l, MCPrefix := pfx, MCGroupID := gid,
      NumWorkers := 1, NACKWorkers := (if NACKWorkers c0 \<le> 0 then os_NumCPU os else NACKWorkers c0),
      EgressIfaces := ifs, BeaconScopeByte := b\<rparr>"
    by (auto simp: validate_def Let_def e0 split: if_splits option.splits sum.splits)
  have bits: "1 \<le> unat (l_bits l)" "unat (l_bits l) \<le> 15"
    using v(1,2) by (auto simp: word_less_nat_alt)
  have "push_bit (unat (l_bits l)) (1 :: u32) = of_nat (2 ^ unat (l_bits l))" by (simp add: push_bit_eq_mult)
  moreover have "(2 :: nat) ^ unat (l_bits l) < 2 ^ 32" using bits by (intro power_strict_increasing) auto
  ultimately have "unat (push_bit (unat (l_bits l)) (1 :: u32)) = 2 ^ unat (l_bits l)"
    by (simp only: unat_of_nat take_bit_eq_mod) simp
  moreover have "b \<in> {0x05, 0x08, 0x0E, 0xFF}" using v(6) by (auto simp: beacon_scope_byte_def split: if_splits)
  moreover have "unat (l_beaconTier l) \<le> 255" "unat (l_beaconPref l) \<le> 255"
    using v(7,8) by (auto simp: word_less_nat_alt)
  ultimately show ?thesis using v bits egress_names_sound [OF v(4)] assms(2) c by auto
qed

text \<open>What \<open>Load\<close> passes on, and the backend it checked.\<close>

lemma load_passes:
  assumes "Load os = Inr c"
  shows "CacheBackend c \<in> {str ''redis'', str ''memory''}
    \<and> ListenPort c = ListenPort (fst (os_flagParse os (load_defaults os)))
    \<and> NACKPort c = NACKPort (fst (os_flagParse os (load_defaults os)))
    \<and> EgressPort c = EgressPort (fst (os_flagParse os (load_defaults os)))
    \<and> RLSequenceMax c = RLSequenceMax (fst (os_flagParse os (load_defaults os)))
    \<and> RLSequenceWindow c = RLSequenceWindow (fst (os_flagParse os (load_defaults os)))"
proof -
  obtain c0 l where cl: "os_flagParse os (load_defaults os) = (c0, l)" by fastforce
  from assms [unfolded Load_def cl] show ?thesis
    unfolding cl by (auto simp: validate_def Let_def split: if_splits option.splits sum.splits)
qed

section \<open>Properties\<close>

text \<open>C22: What \<open>Load\<close> guarantees of a configuration it accepts.  Shard bits are 1 to 15 and the group count is the
  matching power of two; the multicast prefix belongs to the named scope; the backend is one of the two; there is at least one
  egress interface and each is a trimmed, existing name; at least one NACK worker; tier and preference fit a
  byte; the beacon scope byte is one the beacon sends on; the interval is at least a second; a configured
  NACK address is IPv6.  What it does not check: the ports and the limits of the sequence tier are passed on as
  the flags have them, out of range or negative.\<close>

theorem load_validates:
  assumes "Load os = Inr c" "1 \<le> os_NumCPU os"
    and "\<And>d. EgressIfaces (fst (os_flagParse os d)) = EgressIfaces (fst d)"
  shows "1 \<le> unat (ShardBits c) \<and> unat (ShardBits c) \<le> 15 \<and> unat (NumGroups c) = 2 ^ unat (ShardBits c)
    \<and> map_of Scopes (MCScope c) = Some (MCPrefix c) \<and> CacheBackend c \<in> {str ''redis'', str ''memory''}
    \<and> EgressIfaces c \<noteq> [] \<and> (\<forall>n \<in> set (EgressIfaces c). n \<noteq> [] \<and> os_InterfaceByName os n \<noteq> None)
    \<and> 1 \<le> NACKWorkers c \<and> NumWorkers c = 1
    \<and> unat (BeaconTier c) \<le> 255 \<and> unat (BeaconPreference c) \<le> 255
    \<and> BeaconScopeByte c \<in> {0x05, 0x08, 0x0E, 0xFF} \<and> second \<le> BeaconInterval c
    \<and> (BeaconNACKAddr c \<noteq> [] \<longrightarrow> \<not> bad_nack_addr (BeaconNACKAddr c))
    \<and> (let c0 = fst (os_flagParse os (load_defaults os)) in
         ListenPort c = ListenPort c0 \<and> NACKPort c = NACKPort c0 \<and> EgressPort c = EgressPort c0
         \<and> RLSequenceMax c = RLSequenceMax c0 \<and> RLSequenceWindow c = RLSequenceWindow c0)"
  using load_facts [OF assms] load_passes [OF assms(1)] by (simp only: Let_def) blast

text \<open>The defaults on a host whose interfaces all exist, with an empty environment.\<close>

definition ex_os :: os_env where
  "ex_os = \<lparr>os_Getenv = \<lambda>_. [], os_NumCPU = 4, os_ParseFloat = \<lambda>_. None,
     os_InterfaceByName = \<lambda>_. Some 2, os_flagParse = \<lambda>d. d\<rparr>"

lemma ex_os_env:
  "envStr ex_os k d = str d" "envInt ex_os k n = n" "envBool ex_os k b = b" "envFloat ex_os k f = f"
  "envDuration ex_os k t = t"
  by (simp_all add: ex_os_def envStr_def envInt_def envBool_def envFloat_def envDuration_def)

lemma ex_os_group: "parseGroupID (str ''0x000B'') = Inr 11"
  using parseGroupID_hex [of "str ''000B''"] by (simp add: str_def digit_value_def)

lemma ex_os_egress: "egress_names ex_os (split_on 44 (str ''eth0'')) [] = Inr [str ''eth0'']"
proof -
  have "split_on 44 (str ''eth0'') = [str ''eth0'']" by (simp add: str_def)
  moreover have "TrimSpace (str ''eth0'') = str ''eth0''"
    by (rule TrimSpace_id) (simp add: str_def space_runes_def)
  ultimately show ?thesis by (simp add: ex_os_def str_def)
qed

lemma ex_os_load:
  "\<exists>c. Load ex_os = Inr c \<and> EgressIfaces c = [str ''eth0''] \<and> CacheBackend c = str ''memory'' \<and> RedisAddr c = []
    \<and> BeaconNACKAddr c = [] \<and> EgressPort c = 9001 \<and> ListenPort c = 9001 \<and> BeaconEnabled c
    \<and> RLSequenceMax c = 100 \<and> RLChainRate c = Fin 500"
proof -
  have p: "os_flagParse ex_os d = d" for d by (simp add: ex_os_def)
  have "map_of Scopes (str ''site'') = Some 0xFF05" "beacon_scope_byte (str ''site'') = Some 5"
    "str ''memory'' \<noteq> str ''redis''" "str [] = []" by (simp_all add: Scopes_def beacon_scope_byte_def str_def)
  then show ?thesis
    by (simp add: Load_def p validate_def load_defaults_def ex_os_env ex_os_group ex_os_egress Let_def)
qed

theorem load_validates_witness:
  "\<exists>c. Load ex_os = Inr c \<and> EgressIfaces c = [str ''eth0''] \<and> 1 \<le> NACKWorkers c \<and> unat (ShardBits c) \<le> 15"
proof -
  obtain c where c: "Load ex_os = Inr c" "EgressIfaces c = [str ''eth0'']" using ex_os_load by blast
  have "1 \<le> os_NumCPU ex_os" "\<And>d. EgressIfaces (fst (os_flagParse ex_os d)) = EgressIfaces (fst d)"
    by (simp_all add: ex_os_def)
  from load_validates [OF c(1) this] c show ?thesis by blast
qed

text \<open>\<open>Load\<close> accepts a negative sequence maximum together with a port that is none.\<close>

lemma load_accepts_bad_limits:
  "\<exists>c. Load (ex_os\<lparr>os_flagParse := \<lambda>(c, l). (c\<lparr>RLSequenceMax := -1, NACKPort := 70000\<rparr>, l)\<rparr>) = Inr c
    \<and> RLSequenceMax c = -1 \<and> NACKPort c = 70000"
proof -
  have p: "os_flagParse ex_os d = d" for d by (simp add: ex_os_def)
  let ?os = "ex_os\<lparr>os_flagParse := \<lambda>(c, l). (c\<lparr>RLSequenceMax := -1, NACKPort := 70000\<rparr>, l)\<rparr>"
  have e: "envStr ?os = envStr ex_os" "envInt ?os = envInt ex_os" "envBool ?os = envBool ex_os" "envFloat ?os = envFloat ex_os"
    "envDuration ?os = envDuration ex_os" "os_NumCPU ?os = os_NumCPU ex_os"
    by (simp_all add: fun_eq_iff envStr_def envInt_def envBool_def envFloat_def envDuration_def cong: if_cong)
  have n: "egress_names ?os xs acc = egress_names ex_os xs acc" for xs acc
    by (induction xs arbitrary: acc) (simp_all add: Let_def)
  have "map_of Scopes (str ''site'') = Some 0xFF05" "beacon_scope_byte (str ''site'') = Some 5"
    "str ''memory'' \<noteq> str ''redis''" "str [] = []" by (simp_all add: Scopes_def beacon_scope_byte_def str_def)
  then show ?thesis
    by (simp add: Load_def validate_def load_defaults_def e n ex_os_env ex_os_group ex_os_egress Let_def)
qed

text \<open>C23: \<open>parseGroupID\<close> reads decimal strings as decimal and \<open>0x\<close> strings as hexadecimal, exactly in the
  16-bit range.  In particular its fallback from base ten to base sixteen, meant for hexadecimal strings
  without a prefix, never turns an out-of-range decimal number into another group id.\<close>

theorem group_id_parsing:
  assumes "cs \<noteq> []"
  shows "(digits 10 cs \<longrightarrow> (case parseGroupID cs of
            Inr g \<Rightarrow> horner 10 0 cs < 2 ^ 16 \<and> unat g = horner 10 0 cs | Inl e \<Rightarrow> 2 ^ 16 \<le> horner 10 0 cs))
    \<and> (digits 16 cs \<longrightarrow> (case parseGroupID (str ''0x'' @ cs) of
            Inr g \<Rightarrow> horner 16 0 cs < 2 ^ 16 \<and> unat g = horner 16 0 cs | Inl e \<Rightarrow> 2 ^ 16 \<le> horner 16 0 cs))"
  using assms by (auto simp: parseGroupID_dec parseGroupID_hex unat_of_nat take_bit_eq_mod)

theorem group_id_parsing_witness:
  "\<exists>e. parseGroupID (str ''70000'') = Inl e"
proof -
  have "digits 10 (str ''70000'')" "horner 10 0 (str ''70000'') = 70000"
    by (simp_all add: str_def digit_value_def)
  then show ?thesis using group_id_parsing [of "str ''70000''"]
    by (cases "parseGroupID (str ''70000'')") (auto simp: str_def)
qed

end
