(* ===== verification/Deps.thy ===== *)
theory Deps
  imports Go_Net
begin

text \<open>
  The packages \<open>frame\<close> and \<open>shard\<close> of the external module \<open>bitcoin-shard-common\<close>, as parameters of
  the model: records of the constants and functions the program uses.  No definition is given to
  them here; theorems that need one of their documented properties name it as a hypothesis.
\<close>

text \<open>The fields of a decoded frame that the program reads (\<open>HashKey\<close> and \<open>SeqNum\<close>).\<close>

record decoded =
  d_HashKey :: u64
  d_SeqNum :: u64

record frame_pkg =
  fp_MagicBSV :: u32
  fp_ProtoVer :: u16
  fp_FrameVerV4 :: byte
  fp_FrameVerV5 :: byte
  fp_FrameVerV6 :: byte
  fp_IsBlockFrame :: "bytes \<Rightarrow> bool"
  fp_IsSubtreeDataFrame :: "bytes \<Rightarrow> bool"
  fp_IsAnchorFrame :: "bytes \<Rightarrow> bool"
  fp_Decode :: "bytes \<Rightarrow> err + decoded"
  fp_DecodeBlock :: "bytes \<Rightarrow> err + decoded"
  fp_DecodeSubtreeData :: "bytes \<Rightarrow> err + decoded"
  fp_DecodeAnchor :: "bytes \<Rightarrow> err + decoded"

text \<open>A \<open>shard.Engine\<close> and the package-level function and constants.\<close>

record shard_engine =
  se_Prefix :: u16
  se_GroupID :: u16
  se_GroupIndex :: "txid \<Rightarrow> u32"
  se_Addr :: "u32 \<Rightarrow> int \<Rightarrow> udp_addr"

record shard_pkg =
  sp_New :: "u16 \<Rightarrow> u16 \<Rightarrow> nat \<Rightarrow> shard_engine"
  sp_ControlGroupAddr :: "u16 \<Rightarrow> u16 \<Rightarrow> u16 \<Rightarrow> ip"
  sp_CtrlGroupControl :: u16
  sp_CtrlGroupSubtreeAnnounce :: u16
  sp_CtrlGroupBeacon :: u16

section \<open>An example instance\<close>

text \<open>
  Concrete functions for the witnesses: a frame is decodable when it has the 56 bytes up to the
  end of the SeqNum and its version byte fits; an engine whose group index is the low bits
  of the first byte of the TxID.  Nothing but witnesses rests on them.
\<close>

definition ex_decode :: "byte list \<Rightarrow> bytes \<Rightarrow> err + decoded" where
  "ex_decode vers raw = (if length raw < 56 \<or> raw ! 6 \<notin> set vers then Inl (Err ''decode'')
     else Inr \<lparr>d_HashKey = Uint64 (sub raw 40 48), d_SeqNum = Uint64 (sub raw 48 56)\<rparr>)"

definition ex_frame :: frame_pkg where
  "ex_frame = \<lparr>fp_MagicBSV = 0xE3E1F3E8, fp_ProtoVer = 0x02BF,
     fp_FrameVerV4 = 4, fp_FrameVerV5 = 5, fp_FrameVerV6 = 6,
     fp_IsBlockFrame = \<lambda>raw. 7 \<le> length raw \<and> raw ! 6 = 4,
     fp_IsSubtreeDataFrame = \<lambda>raw. 7 \<le> length raw \<and> raw ! 6 = 5,
     fp_IsAnchorFrame = \<lambda>raw. 7 \<le> length raw \<and> raw ! 6 = 6,
     fp_Decode = ex_decode [2], fp_DecodeBlock = ex_decode [4],
     fp_DecodeSubtreeData = ex_decode [5], fp_DecodeAnchor = ex_decode [6]\<rparr>"

definition ex_group_addr :: "u16 \<Rightarrow> u16 \<Rightarrow> u16 \<Rightarrow> ip" where
  "ex_group_addr prefix gid g = be16 prefix @ replicate 10 0 @ be16 gid @ be16 g"

definition ex_engine :: "u16 \<Rightarrow> u16 \<Rightarrow> nat \<Rightarrow> shard_engine" where
  "ex_engine prefix gid bits = \<lparr>se_Prefix = prefix, se_GroupID = gid,
     se_GroupIndex = \<lambda>t. take_bit bits (ucast (hd (t @ [0]))),
     se_Addr = \<lambda>i port. \<lparr>ua_ip = ex_group_addr prefix gid (ucast i), ua_port = port\<rparr>\<rparr>"

definition ex_iface :: iface where
  "ex_iface = \<lparr>if_Name = str ''eth0'', if_Index = 2\<rparr>"

definition ex_shard :: shard_pkg where
  "ex_shard = \<lparr>sp_New = ex_engine, sp_ControlGroupAddr = ex_group_addr,
     sp_CtrlGroupControl = 0xFFFE, sp_CtrlGroupSubtreeAnnounce = 0xFFFB, sp_CtrlGroupBeacon = 0xFFFD\<rparr>"

end
