(* ===== verification/Metrics.thy ===== *)
theory Metrics
  imports Go_Float
begin

text \<open>
  The package \<open>src/metrics/metrics.go\<close>: building the recorder, its methods, its HTTP handlers and its shutdown.
  OpenTelemetry and the Prometheus client are third-party libraries: what their constructors answer is a parameter
  (\<open>otel\<close>), and the model keeps the calls the recorder makes on its instruments (which instrument, which attributes, which
  amount), in order, beside the recorder's own state, which decides \<open>/readyz\<close>.  Components hold a
  recorder that may be nil, here \<open>recorder option\<close>.
\<close>

section \<open>Recorder\<close>

datatype instrument =
    CacheHits | CacheMisses | CacheSizeGauge | CacheErrors
  | NackRequests | Retransmits | RetransmitDedups | ResponsesSent | ResponseSendErrors
  | RateLimitDrops | FramesReceived | FramesCached | FramesDropped | BeaconAdvertsSent

datatype metric_kind = Int64Counter | Int64Gauge

type_synonym metric_call = "instrument \<times> (bytes \<times> bytes) list \<times> int"

text \<open>The readers of the meter provider, the registries behind \<open>/metrics\<close>, and the functions
  that \<open>shutdownFn\<close> calls.\<close>

datatype metric_reader = PrometheusReader | PeriodicReader bytes duration

datatype gatherer = OtelRegistry | RuntimeRegistry

datatype shutdown_fn = ExporterShutdown | ProviderShutdown

record meter_provider =
  mp_readers :: "metric_reader list"
  mp_resource :: "(bytes \<times> bytes) list"

record recorder =
  r_provider :: meter_provider
  r_promReg :: "gatherer list"
  r_numWorkers :: int
  r_startTime :: time
  r_readyCount :: u32
  r_draining :: bool
  r_shutdown :: "shutdown_fn list"
  r_instruments :: "(instrument \<times> metric_kind \<times> bytes) list"
  r_calls :: "metric_call list"

section \<open>Building the recorder\<close>

text \<open>What the libraries and the host answer: \<open>os.Hostname\<close>, \<open>resource.New\<close> on its attributes, the exporters, and
  the meter for an instrument of a kind, a name and a description.\<close>

record otel =
  ot_Hostname :: "bytes option"
  ot_resource :: "(bytes \<times> bytes) list \<Rightarrow> err option"
  ot_prometheus :: "err option"
  ot_otlp :: "bytes \<Rightarrow> err option"
  ot_instrument :: "metric_kind \<Rightarrow> bytes \<Rightarrow> bytes \<Rightarrow> err option"

definition ServiceName :: bytes where "ServiceName = str ''bitcoin-retry-endpoint''"

definition Version :: bytes where "Version = str ''dev''"

definition instance_name :: "otel \<Rightarrow> bytes \<Rightarrow> bytes" where
  "instance_name ot instanceID =
     (if instanceID = [] then (case ot_Hostname ot of None \<Rightarrow> str ''unknown'' | Some h \<Rightarrow> h) else instanceID)"

definition resource_attributes :: "bytes \<Rightarrow> (bytes \<times> bytes) list" where
  "resource_attributes instanceID = [(str ''service.name'', ServiceName),
     (str ''service.instance.id'', instanceID), (str ''service.version'', Version)]"

definition recorder_init :: "meter_provider \<Rightarrow> shutdown_fn list \<Rightarrow> int \<Rightarrow> time \<Rightarrow> recorder" where
  "recorder_init mp shutdownFuncs numWorkers now =
     \<lparr>r_provider = mp, r_promReg = [OtelRegistry, RuntimeRegistry], r_numWorkers = numWorkers, r_startTime = now,
      r_readyCount = 0, r_draining = False, r_shutdown = shutdownFuncs, r_instruments = [], r_calls = []\<rparr>"

text \<open>The instruments, in the order \<open>New\<close> creates them.\<close>

definition instrument_table :: "(instrument \<times> metric_kind \<times> string \<times> string) list" where
  "instrument_table = [
     (CacheHits, Int64Counter, ''bre_cache_hits_total'', ''Cache hits''),
     (CacheMisses, Int64Counter, ''bre_cache_misses_total'', ''Cache misses''),
     (CacheSizeGauge, Int64Gauge, ''bre_cache_size'', ''Current cache size''),
     (CacheErrors, Int64Counter, ''bre_cache_errors_total'', ''Cache errors''),
     (NackRequests, Int64Counter, ''bre_nack_requests_total'', ''NACK requests received''),
     (Retransmits, Int64Counter, ''bre_retransmits_total'', ''Frames retransmitted''),
     (RetransmitDedups, Int64Counter, ''bre_retransmit_dedup_total'', ''Retransmissions dropped due to deduplication''),
     (ResponsesSent, Int64Counter, ''bre_responses_sent_total'', ''ACK/MISS responses successfully written to the NACK socket''),
     (ResponseSendErrors, Int64Counter, ''bre_response_send_errors_total'', ''ACK/MISS responses that failed to send (WriteTo error)''),
     (RateLimitDrops, Int64Counter, ''bre_rate_limit_drops_total'', ''Requests dropped due to rate limiting''),
     (FramesReceived, Int64Counter, ''bre_frames_received_total'', ''Multicast frames received''),
     (FramesCached, Int64Counter, ''bre_frames_cached_total'', ''Frames cached''),
     (FramesDropped, Int64Counter, ''bre_frames_dropped_total'', ''Frames dropped''),
     (BeaconAdvertsSent, Int64Counter, ''bre_beacon_adverts_sent_total'', ''ADVERT beacon datagrams sent to the discovery multicast group'')]"

fun create_instruments :: "otel \<Rightarrow> (instrument \<times> metric_kind \<times> string \<times> string) list \<Rightarrow> recorder \<Rightarrow> err + recorder" where
  "create_instruments ot [] r = Inr r"
| "create_instruments ot ((i, k, name, desc) # rest) r =
     (case ot_instrument ot k (str name) (str desc) of
        Some e \<Rightarrow> Inl e
      | None \<Rightarrow> create_instruments ot rest (r\<lparr>r_instruments := r_instruments r @ [(i, k, str name)]\<rparr>))"

definition rec_New :: "otel \<Rightarrow> bytes \<Rightarrow> int \<Rightarrow> bytes \<Rightarrow> duration \<Rightarrow> time \<Rightarrow> err + recorder" where
  "rec_New ot instanceID0 numWorkers otlpEndpoint otlpInterval now =
     (let instanceID = instance_name ot instanceID0;
          res = resource_attributes instanceID
      in if ot_resource ot res \<noteq> None then Inl (Err ''metrics: build resource'')
         else if ot_prometheus ot \<noteq> None then Inl (Err ''metrics: prometheus exporter'')
         else if otlpEndpoint \<noteq> [] \<and> ot_otlp ot otlpEndpoint \<noteq> None then Inl (Err ''metrics: OTLP exporter'')
         else let otlp = otlpEndpoint \<noteq> [];
                  mp = \<lparr>mp_readers = [PrometheusReader] @ (if otlp then [PeriodicReader otlpEndpoint otlpInterval] else []),
                        mp_resource = res\<rparr>;
                  shutdownFuncs = (if otlp then [ExporterShutdown] else []) @ [ProviderShutdown]
              in create_instruments ot instrument_table (recorder_init mp shutdownFuncs numWorkers now))"

section \<open>Methods\<close>

definition add_metric :: "instrument \<Rightarrow> (bytes \<times> bytes) list \<Rightarrow> int \<Rightarrow> recorder \<Rightarrow> recorder" where
  "add_metric i attrs n r = r\<lparr>r_calls := r_calls r @ [(i, attrs, n)]\<rparr>"

definition rec_CacheHit :: "recorder \<Rightarrow> recorder" where
  "rec_CacheHit = add_metric CacheHits [] 1"

definition rec_CacheMiss :: "recorder \<Rightarrow> recorder" where
  "rec_CacheMiss = add_metric CacheMisses [] 1"

definition rec_CacheSize :: "int \<Rightarrow> recorder \<Rightarrow> recorder" where
  "rec_CacheSize n = add_metric CacheSizeGauge [] n"

definition rec_CacheError :: "recorder \<Rightarrow> recorder" where
  "rec_CacheError = add_metric CacheErrors [] 1"

definition rec_NACKRequest :: "recorder \<Rightarrow> recorder" where
  "rec_NACKRequest = add_metric NackRequests [] 1"

definition rec_Retransmit :: "recorder \<Rightarrow> recorder" where
  "rec_Retransmit = add_metric Retransmits [] 1"

definition rec_RetransmitDedup :: "recorder \<Rightarrow> recorder" where
  "rec_RetransmitDedup = add_metric RetransmitDedups [] 1"

definition rec_ResponseSent :: "bytes \<Rightarrow> recorder \<Rightarrow> recorder" where
  "rec_ResponseSent typ = add_metric ResponsesSent [(str ''type'', typ)] 1"

definition rec_ResponseSendError :: "bytes \<Rightarrow> recorder \<Rightarrow> recorder" where
  "rec_ResponseSendError typ = add_metric ResponseSendErrors [(str ''type'', typ)] 1"

definition rec_RateLimitDrop :: "bytes \<Rightarrow> recorder \<Rightarrow> recorder" where
  "rec_RateLimitDrop level = add_metric RateLimitDrops [(str ''level'', level)] 1"

definition rec_FrameReceived :: "recorder \<Rightarrow> recorder" where
  "rec_FrameReceived = add_metric FramesReceived [] 1"

definition rec_FrameCached :: "recorder \<Rightarrow> recorder" where
  "rec_FrameCached = add_metric FramesCached [] 1"

definition rec_FrameDropped :: "bytes \<Rightarrow> recorder \<Rightarrow> recorder" where
  "rec_FrameDropped reason = add_metric FramesDropped [(str ''reason'', reason)] 1"

definition rec_BeaconAdvertSent :: "recorder \<Rightarrow> recorder" where
  "rec_BeaconAdvertSent = add_metric BeaconAdvertsSent [] 1"

definition rec_WorkerReady :: "recorder \<Rightarrow> recorder" where
  "rec_WorkerReady r = r\<lparr>r_readyCount := r_readyCount r + 1\<rparr>"

definition rec_WorkerDone :: "recorder \<Rightarrow> recorder" where
  "rec_WorkerDone r = r\<lparr>r_readyCount := r_readyCount r - 1\<rparr>"

definition rec_SetDraining :: "recorder \<Rightarrow> recorder" where
  "rec_SetDraining r = r\<lparr>r_draining := True\<rparr>"

text \<open>\<open>if s.rec != nil { s.rec.M() }\<close>\<close>

abbreviation on_rec :: "(recorder \<Rightarrow> recorder) \<Rightarrow> recorder option \<Rightarrow> recorder option" where
  "on_rec f r \<equiv> map_option f r"

lemmas rec_defs [go_defs] =
  rec_CacheHit_def rec_CacheMiss_def rec_CacheSize_def rec_CacheError_def rec_NACKRequest_def
  rec_Retransmit_def rec_RetransmitDedup_def rec_ResponseSent_def rec_ResponseSendError_def
  rec_RateLimitDrop_def rec_FrameReceived_def rec_FrameCached_def rec_FrameDropped_def
  rec_BeaconAdvertSent_def

section \<open>Shutdown\<close>

text \<open>\<open>shutdownFn\<close>: every function is called, the last error is returned; \<open>f\<close> is what each answers.  The
  result lists the calls.\<close>

fun shutdown_loop :: "(shutdown_fn \<Rightarrow> err option) \<Rightarrow> shutdown_fn list \<Rightarrow> err option \<Rightarrow> err option \<times> shutdown_fn list" where
  "shutdown_loop f [] lasterr = (lasterr, [])"
| "shutdown_loop f (fn # fns) lasterr =
     (let (e, called) = shutdown_loop f fns (case f fn of None \<Rightarrow> lasterr | Some e \<Rightarrow> Some e) in (e, fn # called))"

definition rec_Shutdown :: "(shutdown_fn \<Rightarrow> err option) \<Rightarrow> recorder \<Rightarrow> err option \<times> shutdown_fn list" where
  "rec_Shutdown f r = shutdown_loop f (r_shutdown r) None"

section \<open>HTTP handlers\<close>

definition dec_int :: "int \<Rightarrow> bytes" where
  "dec_int n = (if n < 0 then [45] @ dec_nat (nat (- n)) else dec_nat (nat n))"

text \<open>The status code and the body of \<open>/readyz\<close>.\<close>

definition readyz_body :: "string \<Rightarrow> int \<Rightarrow> int \<Rightarrow> bytes" where
  "readyz_body status ready workers =
     [123, 34] @ str ''status'' @ [34, 58, 34] @ str status @ [34, 44, 34] @ str ''workers_ready''
     @ [34, 58] @ dec_int ready @ [44, 34] @ str ''workers_total'' @ [34, 58] @ dec_int workers @ [125]"

definition handleReadyz :: "recorder \<Rightarrow> int \<times> bytes" where
  "handleReadyz r =
     (let ready = sint (r_readyCount r); workers = r_numWorkers r
      in if r_draining r then (503, readyz_body ''draining'' ready workers)
         else if ready \<ge> workers \<and> workers > 0 then (200, readyz_body ''ready'' ready workers)
         else (503, readyz_body ''starting'' ready workers))"

text \<open>\<open>Duration.Seconds\<close> of a duration that is not negative: whole seconds plus nanoseconds over 1e9, where
  the quotient and the sum are each rounded to a \<open>float64\<close> (53 bits, ties to even).\<close>

definition Seconds :: "duration \<Rightarrow> rat" where
  "Seconds d = round53 (of_int (d div second) + round53 (of_int (d mod second) / 10 ^ 9))"

text \<open>\<open>%.1f\<close> of a value that is not negative: correctly rounded to one decimal, ties to even.\<close>

definition fmt_1f :: "rat \<Rightarrow> bytes" where
  "fmt_1f x = (let t = half_even (x * 10) in dec_int (t div 10) @ [46] @ dec_int (t mod 10))"

definition handleHealthz :: "time \<Rightarrow> recorder \<Rightarrow> int \<times> bytes" where
  "handleHealthz now r = (200, [123, 34] @ str ''status'' @ [34, 58, 34] @ str ''ok'' @ [34, 44, 34] @ str ''uptime_seconds''
     @ [34, 58] @ fmt_1f (Seconds (now - r_startTime r)) @ [125])"

text \<open>The \<open>ServeMux\<close> of \<open>Serve\<close> on a clean path.  \<open>gather\<close> is the handler of \<open>promhttp\<close> on the registries.\<close>

definition serve_mux :: "(gatherer list \<Rightarrow> int \<times> bytes) \<Rightarrow> time \<Rightarrow> recorder \<Rightarrow> bytes \<Rightarrow> int \<times> bytes" where
  "serve_mux gather now r path =
     (if path = str ''/metrics'' then gather (r_promReg r)
      else if path = str ''/healthz'' then handleHealthz now r
      else if path = str ''/readyz'' then handleReadyz r
      else (404, str ''404 page not found'' @ [10]))"

section \<open>What a sequence of calls recorded\<close>

definition count_of :: "instrument \<Rightarrow> metric_call list \<Rightarrow> nat" where
  "count_of i cs = length (filter (\<lambda>c. fst c = i) cs)"

lemma r_calls_add [simp]: "r_calls (add_metric i a n r) = r_calls r @ [(i, a, n)]"
  by (simp add: add_metric_def)

lemma count_of_append [simp]: "count_of i (xs @ ys) = count_of i xs + count_of i ys"
  by (simp add: count_of_def)

lemma count_of_Nil [simp]: "count_of i [] = 0"
  by (simp add: count_of_def)

lemma count_of_Cons [simp]: "count_of i (c # cs) = (if fst c = i then Suc (count_of i cs) else count_of i cs)"
  by (simp add: count_of_def)

text \<open>The calls a recorder that may be nil has seen.\<close>

definition calls_in :: "recorder option \<Rightarrow> metric_call list" where
  "calls_in r = (case r of None \<Rightarrow> [] | Some x \<Rightarrow> r_calls x)"

lemma calls_in_add [simp]:
  "calls_in (map_option (add_metric i a n) r) = calls_in r @ (if r = None then [] else [(i, a, n)])"
  by (cases r) (simp_all add: calls_in_def)

lemma readyz_status:
  "fst (handleReadyz r) = (if \<not> r_draining r \<and> 0 < r_numWorkers r
      \<and> r_numWorkers r \<le> sint (r_readyCount r) then 200 else 503)"
  by (auto simp: handleReadyz_def Let_def)

section \<open>Uptime\<close>

lemma Seconds_error:
  assumes "0 \<le> d" "d < 2 ^ 63"
  shows "\<bar>Seconds d - of_int d / 10 ^ 9\<bar> \<le> 1 / 10 ^ 5"
proof -
  let ?s = "of_int (d div second) :: rat" and ?f = "of_int (d mod second) / 10 ^ 9 :: rat"
  have s: "0 \<le> ?s" "?s \<le> 2 ^ 34"
  proof -
    have "d div second \<le> 2 ^ 34" using assms(2) by simp
    then show "?s \<le> 2 ^ 34" by (metis of_int_le_iff of_int_power of_int_numeral)
  qed (use assms(1) in \<open>simp add: pos_imp_zdiv_nonneg_iff\<close>)
  have f: "0 \<le> ?f" "?f \<le> 1"
  proof -
    have "d mod second \<le> 10 ^ 9" using pos_mod_bound [of second d] by simp
    then have "(of_int (d mod second) :: rat) \<le> 10 ^ 9" by (metis of_int_le_iff of_int_power of_int_numeral)
    then show "?f \<le> 1" by simp
  qed simp
  have "(of_int d :: rat) = of_int (d div second) * of_int second + of_int (d mod second)"
    unfolding of_int_mult [symmetric] of_int_add [symmetric] by (rule arg_cong) simp
  then have d: "of_int d / 10 ^ 9 = ?s + ?f" by (simp only:) (simp add: add_divide_distrib)
  define r where "r = round53 ?f"
  have r: "\<bar>r - ?f\<bar> \<le> ?f / 2 ^ 53" unfolding r_def using f by (intro round53_error) simp
  define f' where "f' = ?f"
  have bnd: "0 \<le> f'" "f' \<le> 1" "r - f' \<le> f' / 2 ^ 53" "f' - r \<le> f' / 2 ^ 53"
    using f r by (simp_all only: f'_def abs_le_iff minus_diff_eq)
  have r': "0 \<le> r" "r \<le> 2" using bnd by simp_all
  have "\<bar>Seconds d - (?s + r)\<bar> \<le> (?s + r) / 2 ^ 53"
    unfolding Seconds_def r_def [symmetric] using s r' by (intro round53_error) simp
  also have "\<dots> \<le> (2 ^ 34 + 2) / 2 ^ 53" using s r' by (intro divide_right_mono add_mono) simp_all
  finally have "\<bar>Seconds d - (?s + r)\<bar> \<le> (2 ^ 34 + 2) / 2 ^ 53" .
  then have "Seconds d - (?s + r) \<le> (2 ^ 34 + 2) / 2 ^ 53" "(?s + r) - Seconds d \<le> (2 ^ 34 + 2) / 2 ^ 53"
    by (simp_all only: abs_le_iff minus_diff_eq)
  moreover have "f' / 2 ^ 53 \<le> 1 / 2 ^ 53" using bnd by (intro divide_right_mono) simp_all
  moreover have "(2 ^ 34 + 2) / 2 ^ 53 + 1 / 2 ^ 53 \<le> (1 / 10 ^ 5 :: rat)" by simp
  ultimately show ?thesis using bnd unfolding d f'_def [symmetric] abs_le_iff by linarith
qed

text \<open>\<open>/healthz\<close> always answers 200 and prints the uptime with one decimal, within 0.06 seconds of the true one, for as
  long as a duration can measure.\<close>

lemma healthz_reports_uptime:
  assumes "r_startTime r \<le> now" "now - r_startTime r < 2 ^ 63"
  shows "\<exists>t. handleHealthz now r = (200, [123, 34] @ str ''status'' @ [34, 58, 34] @ str ''ok'' @ [34, 44, 34] @ str ''uptime_seconds''
      @ [34, 58] @ dec_int (t div 10) @ [46] @ dec_int (t mod 10) @ [125])
    \<and> \<bar>of_int t / 10 - of_int (now - r_startTime r) / 10 ^ 9\<bar> \<le> (6 / 100 :: rat)"
proof -
  let ?d = "now - r_startTime r"
  define t where "t = half_even (Seconds ?d * 10)"
  have "\<bar>of_int t - Seconds ?d * 10\<bar> \<le> 1 / 2" unfolding t_def by (rule half_even_error)
  moreover have "\<bar>Seconds ?d - of_int ?d / 10 ^ 9\<bar> \<le> 1 / 10 ^ 5" using assms by (intro Seconds_error) simp_all
  ultimately have "\<bar>of_int t / 10 - of_int ?d / 10 ^ 9\<bar> \<le> (6 / 100 :: rat)"
    unfolding abs_le_iff by (simp add: field_simps)
  then show ?thesis by (intro exI [of _ t]) (simp add: handleHealthz_def fmt_1f_def Let_def t_def)
qed

section \<open>Building\<close>

lemma create_instruments_Inr:
  "create_instruments ot tab r = Inr r' \<longleftrightarrow>
     (\<forall>(i, k, n, d) \<in> set tab. ot_instrument ot k (str n) (str d) = None)
     \<and> r' = r\<lparr>r_instruments := r_instruments r @ map (\<lambda>(i, k, n, d). (i, k, str n)) tab\<rparr>"
  by (induction ot tab r rule: create_instruments.induct) (auto split: option.split)

lemma shutdown_loop_calls: "snd (shutdown_loop f fns l) = fns"
  by (induction f fns l rule: shutdown_loop.induct) (simp_all add: Let_def case_prod_beta)

lemma shutdown_loop_error:
  "fst (shutdown_loop f fns l) = (case filter (\<lambda>fn. f fn \<noteq> None) (rev fns) of [] \<Rightarrow> l | fn # _ \<Rightarrow> f fn)"
proof (induction f fns l rule: shutdown_loop.induct)
  case (2 f fn fns l)
  show ?case
    by (cases "filter (\<lambda>fn. f fn \<noteq> None) (rev fns)")
      (use 2 in \<open>auto simp: Let_def case_prod_beta split: option.split\<close>)
qed simp

lemma str_inj: "str s = str t \<longleftrightarrow> s = t"
proof -
  have "inj (\<lambda>c :: char. of_nat (of_char c) :: byte)"
  proof (rule injI)
    fix c d :: char
    assume "(of_nat (of_char c) :: byte) = of_nat (of_char d)"
    then have "unat (of_nat (of_char c) :: byte) = unat (of_nat (of_char d) :: byte)" by simp
    then have "(of_char c :: nat) = of_char d" by (simp add: unat_of_nat)
    then show "c = d" by simp
  qed
  then show ?thesis by (simp add: str_def inj_map_eq_map)
qed

lemma rec_New_fields:
  assumes "rec_New ot instanceID n ep iv now = Inr r"
  shows "r_instruments r = map (\<lambda>(i, k, n, d). (i, k, str n)) instrument_table"
    "r_numWorkers r = n" "r_startTime r = now" "r_readyCount r = 0" "\<not> r_draining r" "r_calls r = []"
    "r_shutdown r = (if ep = [] then [] else [ExporterShutdown]) @ [ProviderShutdown]"
  using assms by (auto simp: rec_New_def Let_def create_instruments_Inr recorder_init_def split: if_splits)

section \<open>Examples\<close>

text \<open>Libraries that create whatever is asked for, and a recorder without instruments.\<close>

definition ex_otel :: otel where
  "ex_otel = \<lparr>ot_Hostname = None, ot_resource = \<lambda>_. None, ot_prometheus = None, ot_otlp = \<lambda>_. None, ot_instrument = \<lambda>_ _ _. None\<rparr>"

definition ex_recorder :: "int \<Rightarrow> time \<Rightarrow> recorder" where
  "ex_recorder n now = recorder_init \<lparr>mp_readers = [], mp_resource = []\<rparr> [] n now"

lemma ex_otel_New: "\<exists>r. rec_New ex_otel instanceID n ep iv now = Inr r"
  by (simp add: rec_New_def ex_otel_def create_instruments_Inr Let_def case_prod_beta)

section \<open>Properties\<close>

text \<open>C39: \<open>New\<close> either fails because the resource, an exporter that is used or an instrument could not be created, or returns a
  recorder for which every instrument its methods use exists, each under a name of its own; it counts the workers it was given,
  starts not ready and not draining, and shuts the OTLP exporter down only when there is one, then the provider.\<close>

theorem metrics_new_complete:
  "(case rec_New ot instanceID n ep iv now of
      Inl e \<Rightarrow> ot_resource ot (resource_attributes (instance_name ot instanceID)) \<noteq> None \<or> ot_prometheus ot \<noteq> None
        \<or> (ep \<noteq> [] \<and> ot_otlp ot ep \<noteq> None)
        \<or> (\<exists>(i, k, name, desc) \<in> set instrument_table. ot_instrument ot k (str name) (str desc) \<noteq> None)
    | Inr r \<Rightarrow> ot_resource ot (resource_attributes (instance_name ot instanceID)) = None \<and> ot_prometheus ot = None
        \<and> (ep = [] \<or> ot_otlp ot ep = None)
        \<and> (\<forall>(i, k, name, desc) \<in> set instrument_table. ot_instrument ot k (str name) (str desc) = None)
        \<and> (\<forall>i. \<exists>k name. (i, k, name) \<in> set (r_instruments r))
        \<and> distinct (map fst (r_instruments r)) \<and> distinct (map (snd \<circ> snd) (r_instruments r))
        \<and> r_numWorkers r = n \<and> r_startTime r = now \<and> r_readyCount r = 0 \<and> \<not> r_draining r \<and> r_calls r = []
        \<and> r_shutdown r = (if ep = [] then [] else [ExporterShutdown]) @ [ProviderShutdown])"
proof (cases "rec_New ot instanceID n ep iv now")
  case (Inl e)
  have "(\<exists>(i, k, name, desc) \<in> set tab. ot_instrument ot k (str name) (str desc) \<noteq> None)"
    if "create_instruments ot tab r = Inl e" for tab r
    using that by (induction ot tab r rule: create_instruments.induct) (auto split: option.splits)
  then show ?thesis using Inl by (auto simp: rec_New_def Let_def split: if_splits)
next
  case (Inr r)
  note r = rec_New_fields [OF Inr]
  have "\<exists>k name. (i, k, name) \<in> set (r_instruments r)" for i
    unfolding r(1) instrument_table_def by (cases i) auto
  moreover have "distinct (map fst (r_instruments r))" by (simp add: r(1) instrument_table_def)
  moreover have "map (snd \<circ> snd) (r_instruments r) = map str (map (\<lambda>(i, k, n, d). n) instrument_table)"
    by (simp add: r(1) case_prod_beta o_def)
  then have "distinct (map (snd \<circ> snd) (r_instruments r))"
    by (simp add: distinct_map inj_on_def str_inj instrument_table_def)
  moreover have "ot_resource ot (resource_attributes (instance_name ot instanceID)) = None" "ot_prometheus ot = None"
    "ep = [] \<or> ot_otlp ot ep = None"
    "\<forall>(i, k, name, desc) \<in> set instrument_table. ot_instrument ot k (str name) (str desc) = None"
    using Inr by (auto simp: rec_New_def Let_def create_instruments_Inr split: if_splits)
  ultimately show ?thesis using Inr r(2-) by simp
qed

theorem metrics_new_complete_witness:
  "\<exists>r. rec_New ex_otel [] 1 [9] second 0 = Inr r \<and> r_shutdown r = [ExporterShutdown, ProviderShutdown]
    \<and> (\<exists>k name. (BeaconAdvertsSent, k, name) \<in> set (r_instruments r))"
proof (cases "rec_New ex_otel [] 1 [9] second 0")
  case (Inl e)
  then show ?thesis using metrics_new_complete [where ot = ex_otel and instanceID = "[]" and n = 1 and ep = "[9]" and iv = second and now = 0] by (simp add: ex_otel_def)
next
  case (Inr r)
  then show ?thesis using metrics_new_complete [where ot = ex_otel and instanceID = "[]" and n = 1 and ep = "[9]" and iv = second and now = 0] by simp
qed

end
