(* ===== verification/Beacon.thy ===== *)
theory Beacon
  imports Deps Metrics
begin

text \<open>
  The ADVERT beacon of \<open>src/beacon/beacon.go\<close>: the 56-byte datagram, the beacon groups a scope
  selects, and the sender's run from dialling the groups to the last tick.  What dialling and writing
  return, and the ticks before the context is cancelled, are inputs of the run; log output and the
  socket option of the outgoing interface (whose errors the source ignores) are not modelled.
\<close>

section \<open>Constants and state\<close>

definition ADVERTSize :: nat where "ADVERTSize = 56"

definition MsgTypeADVERT :: byte where "MsgTypeADVERT = 0x20"

definition FlagHasParent :: u16 where "FlagHasParent = 0x0002"

definition FlagDraining :: u16 where "FlagDraining = 0x0004"

definition FlagUnicastRetransmit :: u16 where "FlagUnicastRetransmit = 0x0008"

definition FlagMulticastRetransmit :: u16 where "FlagMulticastRetransmit = 0x0010"

record beacon_config =
  bc_NACKAddr :: ip
  bc_NACKPort :: u16
  bc_Tier :: byte
  bc_Preference :: byte
  bc_Interval :: duration
  bc_Scope :: byte
  bc_Flags :: u16
  bc_InstanceID :: u32
  bc_GroupID :: u16
  bc_Iface :: "int option"

text \<open>The sender; the recorder it shares with other components is in \<open>beacon_world\<close> below.\<close>

record beacon_sender =
  bs_cfg :: beacon_config

definition beacon_New :: "beacon_config \<Rightarrow> beacon_sender" where
  "beacon_New cfg = \<lparr>bs_cfg = (if bc_Interval cfg = 0 then cfg\<lparr>bc_Interval := 60 * second\<rparr> else cfg)\<rparr>"

section \<open>The datagram\<close>

text \<open>
  \<open>uint16(d.Seconds())\<close>.  \<open>Seconds\<close> adds the whole seconds and the nanoseconds as a \<open>float64\<close>; below
  2^16 seconds that sum is within 2^-36 of the exact one, less than a nanosecond, so it never
  reaches the next integer and the conversion truncates to the whole seconds.  For a value outside the range of
  \<open>uint16\<close> the result is implementation-defined: the argument \<open>oob\<close>.
\<close>

definition seconds_u16 :: "(duration \<Rightarrow> u16) \<Rightarrow> duration \<Rightarrow> u16" where
  "seconds_u16 oob d =
     (let sec = sgn d * (\<bar>d\<bar> div second) in if 0 \<le> sec \<and> sec < 2 ^ 16 then word_of_int sec else oob d)"

definition buildADVERT :: "frame_pkg \<Rightarrow> (duration \<Rightarrow> u16) \<Rightarrow> beacon_sender \<Rightarrow> bytes" where
  "buildADVERT fp oob s =
     (let cfg = bs_cfg s;
          b1 = PutUint32 (replicate ADVERTSize 0) 0 (fp_MagicBSV fp);
          b2 = PutUint16 b1 4 (fp_ProtoVer fp);
          b3 = b2[6 := MsgTypeADVERT, 7 := bc_Scope cfg];
          nackIP = (case To16 (bc_NACKAddr cfg) of None \<Rightarrow> IPv6unspecified | Some a \<Rightarrow> a);
          b4 = put_at b3 8 nackIP;
          b5 = PutUint16 b4 24 (bc_NACKPort cfg);
          b6 = b5[26 := bc_Tier cfg, 27 := bc_Preference cfg];
          b7 = PutUint16 b6 28 (seconds_u16 oob (bc_Interval cfg));
          b8 = PutUint16 b7 30 (bc_Flags cfg)
      in PutUint32 b8 32 (bc_InstanceID cfg))"

definition beaconGroups :: "shard_pkg \<Rightarrow> beacon_sender \<Rightarrow> udp_addr list" where
  "beaconGroups sp s =
     (let cfg = bs_cfg s; beaconPort = 9300;
          grp = (\<lambda>prefix. \<lparr>ua_ip = sp_ControlGroupAddr sp prefix (bc_GroupID cfg) (sp_CtrlGroupBeacon sp), ua_port = beaconPort\<rparr>)
      in (if bc_Scope cfg = 0x05 \<or> bc_Scope cfg = 0xFF then [grp 0xFF05] else [])
       @ (if bc_Scope cfg = 0x08 \<or> bc_Scope cfg = 0xFF then [grp 0xFF08] else [])
       @ (if bc_Scope cfg = 0x0E \<or> bc_Scope cfg = 0xFF then [grp 0xFF0E] else []))"

section \<open>The run\<close>

text \<open>The recorder, the datagrams written (connection and bytes), and the open descriptors.\<close>

record beacon_world =
  bw_rec :: "recorder option"
  bw_sent :: "(nat \<times> bytes) list"
  bw_fds :: "nat list"

definition SetRecorder :: "recorder \<Rightarrow> beacon_world \<Rightarrow> beacon_world" where
  "SetRecorder rc w = w\<lparr>bw_rec := Some rc\<rparr>"

text \<open>\<open>send\<close>: a failed write is skipped, a successful one counted.\<close>

fun beacon_send :: "(nat \<Rightarrow> err option) \<Rightarrow> nat list \<Rightarrow> bytes \<Rightarrow> beacon_world \<Rightarrow> beacon_world" where
  "beacon_send wr [] buf w = w"
| "beacon_send wr (conn # conns) buf w =
     beacon_send wr conns buf
       (case wr conn of
          Some e \<Rightarrow> w
        | None \<Rightarrow> w\<lparr>bw_sent := bw_sent w @ [(conn, buf)], bw_rec := on_rec rec_BeaconAdvertSent (bw_rec w)\<rparr>)"

text \<open>Dialling: a group that cannot be dialled is skipped.\<close>

fun dial_loop :: "(udp_addr \<Rightarrow> err + nat) \<Rightarrow> udp_addr list \<Rightarrow> nat list \<Rightarrow> nat list" where
  "dial_loop dial [] conns = conns"
| "dial_loop dial (grp # grps) conns =
     (case dial grp of Inl e \<Rightarrow> dial_loop dial grps conns | Inr c \<Rightarrow> dial_loop dial grps (conns @ [c]))"

text \<open>The ticks until the context is cancelled; each is given by what its writes return.\<close>

fun tick_loop :: "(nat \<Rightarrow> err option) list \<Rightarrow> nat list \<Rightarrow> bytes \<Rightarrow> beacon_world \<Rightarrow> beacon_world" where
  "tick_loop [] conns buf w = w"
| "tick_loop (wr # ticks) conns buf w = tick_loop ticks conns buf (beacon_send wr conns buf w)"

text \<open>\<open>Run\<close>, from its call to the return after the cancellation.  \<open>time.NewTicker\<close> panics for an
  interval that is not positive.\<close>

definition beacon_Run :: "frame_pkg \<Rightarrow> shard_pkg \<Rightarrow> (duration \<Rightarrow> u16) \<Rightarrow> (udp_addr \<Rightarrow> err + nat) \<Rightarrow> beacon_sender
    \<Rightarrow> (nat \<Rightarrow> err option) \<Rightarrow> (nat \<Rightarrow> err option) list \<Rightarrow> beacon_world \<Rightarrow> panic + beacon_world" where
  "beacon_Run fp sp oob dial s wr ticks w =
     (let buf = buildADVERT fp oob s;
          groups = beaconGroups sp s
      in if groups = [] then Inr w
         else let conns = dial_loop dial groups [];
                  w1 = w\<lparr>bw_fds := conns @ bw_fds w\<rparr>
              in if conns = [] then Inr w1
                 else if bc_Interval (bs_cfg s) \<le> 0 then Inl NonPositiveTicker
                 else let w2 = tick_loop ticks conns buf (beacon_send wr conns buf w1)
                      in Inr (w2\<lparr>bw_fds := foldl (\<lambda>fds c. remove1 c fds) (bw_fds w2) conns\<rparr>))"

section \<open>Lemmas\<close>

lemma To16_length: "To16 a = Some b \<Longrightarrow> length b = 16"
  by (auto simp: To16_def split: if_splits)

lemma buildADVERT_eq:
  "buildADVERT fp oob s = be32 (fp_MagicBSV fp) @ be16 (fp_ProtoVer fp) @ [MsgTypeADVERT, bc_Scope (bs_cfg s)]
     @ (case To16 (bc_NACKAddr (bs_cfg s)) of None \<Rightarrow> IPv6unspecified | Some a \<Rightarrow> a)
     @ be16 (bc_NACKPort (bs_cfg s)) @ [bc_Tier (bs_cfg s), bc_Preference (bs_cfg s)]
     @ be16 (seconds_u16 oob (bc_Interval (bs_cfg s))) @ be16 (bc_Flags (bs_cfg s)) @ be32 (bc_InstanceID (bs_cfg s))
     @ replicate 20 0"
proof -
  define a where "a = (case To16 (bc_NACKAddr (bs_cfg s)) of None \<Rightarrow> IPv6unspecified | Some a \<Rightarrow> a)"
  have len: "length a = 16" using To16_length by (auto simp: a_def IPv6unspecified_def split: option.split)
  have z: "replicate 56 (0 :: byte) = replicate 4 0 @ replicate 2 0 @ [0, 0] @ replicate 16 0 @ replicate 2 0
      @ [0, 0] @ replicate 2 0 @ replicate 2 0 @ replicate 4 0 @ replicate 20 0"
    by (simp add: numeral_eq_Suc)
  show ?thesis
    unfolding buildADVERT_def Let_def ADVERTSize_def PutUint32_def PutUint16_def a_def [symmetric] z put_at_def
    using len by (simp add: be16_def be32_def list_update_append numeral_eq_Suc)
qed

lemma beacon_send_eq:
  "bw_sent (beacon_send wr conns buf w) = bw_sent w @ map (\<lambda>c. (c, buf)) (filter (\<lambda>c. wr c = None) conns)
   \<and> bw_fds (beacon_send wr conns buf w) = bw_fds w
   \<and> (bw_rec w \<noteq> None \<longrightarrow> calls_in (bw_rec (beacon_send wr conns buf w)) =
        calls_in (bw_rec w) @ replicate (length (filter (\<lambda>c. wr c = None) conns)) (BeaconAdvertsSent, [], 1)
        \<and> bw_rec (beacon_send wr conns buf w) \<noteq> None)"
  by (induction conns arbitrary: w) (auto simp: rec_defs split: option.split)

lemma tick_loop_eq:
  "bw_sent (tick_loop ticks conns buf w)
     = bw_sent w @ concat (map (\<lambda>wr. map (\<lambda>c. (c, buf)) (filter (\<lambda>c. wr c = None) conns)) ticks)
   \<and> bw_fds (tick_loop ticks conns buf w) = bw_fds w
   \<and> (bw_rec w \<noteq> None \<longrightarrow> length (calls_in (bw_rec (tick_loop ticks conns buf w)))
        = length (calls_in (bw_rec w)) + length (bw_sent (tick_loop ticks conns buf w)) - length (bw_sent w))"
proof (induction ticks arbitrary: w)
  case (Cons wr ticks)
  then show ?case using beacon_send_eq [of wr conns buf w] by auto
qed simp

lemma dial_loop_eq: "dial_loop dial grps conns = conns @ concat (map (\<lambda>g. case dial g of Inl e \<Rightarrow> [] | Inr c \<Rightarrow> [c]) grps)"
  by (induction grps arbitrary: conns) (auto split: sum.split)

lemma remove_front: "foldl (\<lambda>fds c. remove1 c fds) (conns @ fds) conns = fds"
  by (induction conns) auto

lemma seconds_u16_exact:
  "0 \<le> d \<Longrightarrow> d < 2 ^ 16 * second \<Longrightarrow> int (unat (seconds_u16 oob d)) = d div second"
proof -
  assume d: "0 \<le> d" "d < 2 ^ 16 * second"
  then have "0 \<le> d div second" "d div second < 2 ^ 16" by (simp_all add: div_less_iff_less_mult pos_imp_zdiv_nonneg_iff)
  moreover have "sgn d * (\<bar>d\<bar> div second) = d div second" using d by (cases "d = 0") simp_all
  ultimately have "seconds_u16 oob d = word_of_int (d div second)" by (simp only: seconds_u16_def Let_def) simp
  then show ?thesis using \<open>0 \<le> d div second\<close> \<open>d div second < 2 ^ 16\<close>
    by (simp add: uint_word_of_int take_bit_eq_mod flip: uint_nat)
qed

section \<open>Properties\<close>

text \<open>C26: An ADVERT is 56 bytes and decodes to the configuration it announces: magic, protocol version,
  message type, scope, the NACK address and port, tier, preference, flags, instance id, and the interval in whole
  seconds when it is below 65536 seconds; the reserved bytes are zero.\<close>

theorem advert_roundtrip:
  assumes "0 \<le> bc_Interval cfg" "bc_Interval cfg < 2 ^ 16 * second" "length (bc_NACKAddr cfg) = 16"
  shows "let b = buildADVERT fp oob \<lparr>bs_cfg = cfg\<rparr> in
    length b = 56 \<and> Uint32 (sub b 0 4) = fp_MagicBSV fp \<and> Uint16 (sub b 4 6) = fp_ProtoVer fp
    \<and> b ! 6 = MsgTypeADVERT \<and> b ! 7 = bc_Scope cfg \<and> sub b 8 24 = bc_NACKAddr cfg
    \<and> Uint16 (sub b 24 26) = bc_NACKPort cfg \<and> b ! 26 = bc_Tier cfg \<and> b ! 27 = bc_Preference cfg
    \<and> int (unat (Uint16 (sub b 28 30))) = bc_Interval cfg div second
    \<and> Uint16 (sub b 30 32) = bc_Flags cfg \<and> Uint32 (sub b 32 36) = bc_InstanceID cfg
    \<and> sub b 36 56 = replicate 20 0"
  using assms seconds_u16_exact [OF assms(1,2), of oob]
  by (simp add: buildADVERT_eq To16_def sub_def nth_append Let_def)

theorem advert_roundtrip_witness:
  "sub (buildADVERT ex_frame (\<lambda>_. 0) (beacon_New \<lparr>bc_NACKAddr = replicate 16 7, bc_NACKPort = 9300, bc_Tier = 1,
      bc_Preference = 128, bc_Interval = 0, bc_Scope = 5, bc_Flags = FlagMulticastRetransmit, bc_InstanceID = 42,
      bc_GroupID = 11, bc_Iface = None\<rparr>)) 8 24 = replicate 16 7"
  using advert_roundtrip [of "\<lparr>bc_NACKAddr = replicate 16 7, bc_NACKPort = 9300, bc_Tier = 1,
      bc_Preference = 128, bc_Interval = 60 * second, bc_Scope = 5, bc_Flags = FlagMulticastRetransmit, bc_InstanceID = 42,
      bc_GroupID = 11, bc_Iface = None\<rparr>" ex_frame "\<lambda>_. 0"]
  by (simp add: beacon_New_def Let_def)

text \<open>C27: A beacon with a positive interval runs until it is cancelled and announces itself at once and on every
  tick: each time the same ADVERT goes to every group that could be dialled whose write does not fail,
  the recorder counts exactly the datagrams sent, and no descriptor stays open.\<close>

theorem beacon_run_announces:
  assumes "0 < bc_Interval (bs_cfg s)" "bw_rec w = Some rc"
  shows "\<exists>w'. beacon_Run fp sp oob dial s wr ticks w = Inr w' \<and> bw_fds w' = bw_fds w
    \<and> bw_sent w' = bw_sent w @ concat (map (\<lambda>wr. map (\<lambda>c. (c, buildADVERT fp oob s))
         (filter (\<lambda>c. wr c = None)
           (concat (map (\<lambda>g. case dial g of Inl e \<Rightarrow> [] | Inr c \<Rightarrow> [c]) (beaconGroups sp s))))) (wr # ticks))
    \<and> length (calls_in (bw_rec w')) + length (bw_sent w) = length (r_calls rc) + length (bw_sent w')"
proof -
  define conns where "conns = concat (map (\<lambda>g. case dial g of Inl e \<Rightarrow> [] | Inr c \<Rightarrow> [c]) (beaconGroups sp s))"
  let ?b = "buildADVERT fp oob s"
  let ?w1 = "w\<lparr>bw_fds := conns @ bw_fds w\<rparr>"
  let ?w2 = "beacon_send wr conns ?b ?w1"
  let ?w3 = "tick_loop ticks conns ?b ?w2"
  have dial: "dial_loop dial (beaconGroups sp s) [] = conns" by (simp add: dial_loop_eq conns_def)
  have calls: "calls_in (bw_rec w) = r_calls rc" by (simp add: calls_in_def assms(2))
  show ?thesis
  proof (cases "conns = []")
    case True
    then have "beacon_Run fp sp oob dial s wr ticks w = Inr w"
      using dial by (simp add: beacon_Run_def Let_def)
    moreover have "concat (map (\<lambda>wr. map (\<lambda>c. (c, ?b)) (filter (\<lambda>c. wr c = None) conns)) (wr # ticks)) = []"
      using True by simp
    ultimately show ?thesis using calls by (simp only: conns_def [symmetric]) simp
  next
    case False
    then have "beaconGroups sp s \<noteq> []" by (auto simp: conns_def)
    then have "beacon_Run fp sp oob dial s wr ticks w
        = Inr (?w3\<lparr>bw_fds := foldl (\<lambda>fds c. remove1 c fds) (bw_fds ?w3) conns\<rparr>)"
      using False assms(1) dial by (simp add: beacon_Run_def Let_def)
    moreover have "bw_fds ?w3 = conns @ bw_fds w" "bw_sent ?w3 = bw_sent w @
        concat (map (\<lambda>wr. map (\<lambda>c. (c, ?b)) (filter (\<lambda>c. wr c = None) conns)) (wr # ticks))"
      "length (calls_in (bw_rec ?w3)) + length (bw_sent w) = length (r_calls rc) + length (bw_sent ?w3)"
      using beacon_send_eq [of wr conns ?b ?w1] tick_loop_eq [of ticks conns ?b ?w2] assms(2) calls by auto
    ultimately show ?thesis by (simp add: remove_front conns_def)
  qed
qed

theorem beacon_run_announces_witness:
  "\<exists>w'. beacon_Run ex_frame ex_shard (\<lambda>_. 0) (\<lambda>_. Inr 3) (beacon_New \<lparr>bc_NACKAddr = [], bc_NACKPort = 9300, bc_Tier = 1,
      bc_Preference = 128, bc_Interval = 0, bc_Scope = 5, bc_Flags = 0, bc_InstanceID = 42,
      bc_GroupID = 11, bc_Iface = None\<rparr>) (\<lambda>_. None) [\<lambda>_. None]
      \<lparr>bw_rec = Some (ex_recorder 1 0), bw_sent = [], bw_fds = [1]\<rparr> = Inr w' \<and> bw_fds w' = [1] \<and> length (bw_sent w') = 2"
proof -
  let ?s = "beacon_New \<lparr>bc_NACKAddr = [], bc_NACKPort = 9300, bc_Tier = 1,
      bc_Preference = 128, bc_Interval = 0, bc_Scope = 5, bc_Flags = 0, bc_InstanceID = 42,
      bc_GroupID = 11, bc_Iface = None\<rparr>"
  have "0 < bc_Interval (bs_cfg ?s)" "length (beaconGroups ex_shard ?s) = 1"
    by (simp_all add: beacon_New_def beaconGroups_def Let_def)
  then show ?thesis
    using beacon_run_announces [of ?s "\<lparr>bw_rec = Some (ex_recorder 1 0), bw_sent = [], bw_fds = [1]\<rparr>" "ex_recorder 1 0"
        ex_frame ex_shard "\<lambda>_. 0" "\<lambda>_. Inr 3" "\<lambda>_. None" "[\<lambda>_. None]"]
    by (auto simp: length_Suc_conv)
qed

end
