(* ===== verification/Cache_Iface.thy ===== *)
theory Cache_Iface
  imports Go_Base
begin

text \<open>
  The interface \<open>cache.Cache\<close> of \<open>src/cache/cache.go\<close>: \<open>Store\<close>, \<open>Retrieve\<close>, \<open>Delete\<close> as the
  ingress worker and the NACK server call them, and what both backends promise.  The locale
  \<open>frame_cache\<close> states the promise; \<open>Memory_Cache\<close> and \<open>Redis_Cache\<close> interpret it on their own
  definitions.  The lemmas inside the locale are about whole histories of calls: what a
  \<open>Retrieve\<close> may return after any sequence of operations of any number of callers.

  An operation takes the clock reading at the call.  \<open>Store\<close> takes in addition the runtime's
  choice of map iteration order (\<open>nat\<close>), which only the in-memory backend uses.
\<close>

section \<open>Histories of calls\<close>

datatype 'v cache_op =
    CStore nat time bytes 'v duration
  | CRetrieve time bytes
  | CDelete time bytes

fun op_time :: "'v cache_op \<Rightarrow> time" where
  "op_time (CStore _ t _ _ _) = t"
| "op_time (CRetrieve t _) = t"
| "op_time (CDelete t _) = t"

text \<open>
  The values a \<open>Retrieve\<close> of \<open>k\<close> at time \<open>t\<close> may see after a history: those of the stores
  to \<open>k\<close> that are neither followed by a completed \<open>Delete\<close> of \<open>k\<close> nor expired at \<open>t\<close>.
\<close>

fun op_stores :: "bytes \<Rightarrow> time \<Rightarrow> 'v cache_op \<Rightarrow> 'v set" where
  "op_stores k t (CStore _ s k' v ttl) = (if k' = k \<and> t \<le> s + ttl then {v} else {})"
| "op_stores k t _ = {}"

text \<open>A time-to-live both backends keep: positive and a whole number of milliseconds.\<close>

definition ttl_ok :: "duration \<Rightarrow> bool" where
  "ttl_ok ttl \<longleftrightarrow> 0 < ttl \<and> ttl mod millisecond = 0"

fun op_ttl_ok :: "'v cache_op \<Rightarrow> bool" where
  "op_ttl_ok (CStore _ _ _ _ ttl) = ttl_ok ttl"
| "op_ttl_ok _ = True"

section \<open>The contract\<close>

locale frame_cache =
  fixes store :: "nat \<Rightarrow> time \<Rightarrow> bytes \<Rightarrow> 'v \<Rightarrow> duration \<Rightarrow> 's \<Rightarrow> err option \<times> 's"
    and retrieve :: "time \<Rightarrow> bytes \<Rightarrow> 's \<Rightarrow> (err + 'v option) \<times> 's"
    and delete :: "time \<Rightarrow> bytes \<Rightarrow> 's \<Rightarrow> err option \<times> 's"
    and view :: "'s \<Rightarrow> time \<Rightarrow> bytes \<Rightarrow> 'v option"
    and invar :: "'s \<Rightarrow> bool"
  assumes invar_store: "invar s \<Longrightarrow> invar (snd (store r t k v ttl s))"
    and invar_retrieve: "invar s \<Longrightarrow> invar (snd (retrieve t k s))"
    and invar_delete: "invar s \<Longrightarrow> invar (snd (delete t k s))"
    and retrieve_view: "invar s \<Longrightarrow> retrieve t k s = (Inr x, s') \<Longrightarrow> x = view s t k"
    and view_retrieve: "invar s \<Longrightarrow> t \<le> t' \<Longrightarrow> view (snd (retrieve t k s)) t' k' = view s t' k'"
    and view_store_hit: "invar s \<Longrightarrow> ttl_ok ttl \<Longrightarrow> store r t k v ttl s = (None, s') \<Longrightarrow>
      t \<le> t' \<Longrightarrow> t' < t + ttl \<Longrightarrow> view s' t' k = Some v"
    and view_store_key: "invar s \<Longrightarrow> ttl_ok ttl \<Longrightarrow> t \<le> t' \<Longrightarrow>
      view (snd (store r t k v ttl s)) t' k = Some w \<Longrightarrow>
      w = v \<and> t' \<le> t + ttl \<or> fst (store r t k v ttl s) \<noteq> None \<and> view s t' k = Some w"
    and view_store_other: "invar s \<Longrightarrow> t \<le> t' \<Longrightarrow> k' \<noteq> k \<Longrightarrow>
      view (snd (store r t k v ttl s)) t' k' = Some w \<Longrightarrow> view s t' k' = Some w"
    and view_delete_key: "invar s \<Longrightarrow> delete t k s = (None, s') \<Longrightarrow> t \<le> t' \<Longrightarrow> view s' t' k = None"
    and view_delete: "invar s \<Longrightarrow> t \<le> t' \<Longrightarrow>
      view (snd (delete t k s)) t' k' = Some w \<Longrightarrow> view s t' k' = Some w"
    and view_delete_other: "invar s \<Longrightarrow> t \<le> t' \<Longrightarrow> k' \<noteq> k \<Longrightarrow>
      view (snd (delete t k s)) t' k' = view s t' k'"
begin

text \<open>One operation and a history of them.\<close>

fun op_step :: "'v cache_op \<Rightarrow> 's \<Rightarrow> 's" where
  "op_step (CStore r t k v ttl) s = snd (store r t k v ttl s)"
| "op_step (CRetrieve t k) s = snd (retrieve t k s)"
| "op_step (CDelete t k) s = snd (delete t k s)"

definition op_run :: "'v cache_op list \<Rightarrow> 's \<Rightarrow> 's" where
  "op_run ops s = fold op_step ops s"

lemma invar_step: "invar s \<Longrightarrow> invar (op_step x s)"
  by (cases x) (simp_all add: invar_store invar_retrieve invar_delete)

lemma invar_run: "invar s \<Longrightarrow> invar (op_run ops s)"
  unfolding op_run_def by (induction ops arbitrary: s) (simp_all add: invar_step)

text \<open>An operation makes no value visible but the one it stores.\<close>

lemma view_step:
  assumes "invar s" "op_ttl_ok x" "op_time x \<le> t'" "view (op_step x s) t' k = Some w"
  shows "w \<in> op_stores k t' x \<or> view s t' k = Some w"
proof (cases x)
  case (CStore r t k' v ttl)
  then show ?thesis
    using assms view_store_key [of s ttl t t' r k v w] view_store_other [of s t t' k k' r v ttl w]
    by (cases "k' = k") auto
next
  case (CRetrieve t k')
  then show ?thesis using assms view_retrieve by simp
next
  case (CDelete t k')
  then show ?thesis using assms view_delete by auto
qed

text \<open>
  No phantom values: whatever a \<open>Retrieve\<close> returns after a history was stored under exactly
  that key by one of the stores of the history, and has not expired.
\<close>

lemma view_run:
  assumes "invar s" "\<forall>x \<in> set ops. op_ttl_ok x" "\<forall>x \<in> set ops. op_time x \<le> t'"
    "view (op_run ops s) t' k = Some w"
  shows "(\<exists>x \<in> set ops. w \<in> op_stores k t' x) \<or> view s t' k = Some w"
  using assms
proof (induction ops arbitrary: s)
  case (Cons x ops)
  then have "(\<exists>y \<in> set ops. w \<in> op_stores k t' y) \<or> view (op_step x s) t' k = Some w"
    using Cons.IH [of "op_step x s"] by (simp add: op_run_def invar_step)
  then show ?case using view_step [of s x t' k w] Cons.prems by auto
qed (simp add: op_run_def)

text \<open>Within its time-to-live a stored value is what the next \<open>Retrieve\<close> of the key returns.\<close>

lemma store_then_retrieve:
  assumes "invar s" "ttl_ok ttl" "store r t k v ttl s = (None, s')" "t \<le> t'" "t' < t + ttl"
    "retrieve t' k s' = (Inr x, s'')"
  shows "x = Some v"
proof -
  have "invar s'" using invar_store [of s r t k v ttl] assms by simp
  then have "x = view s' t' k" using assms(6) by (rule retrieve_view)
  then show ?thesis using view_store_hit [OF assms(1-5)] by simp
qed

lemma delete_then_retrieve:
  assumes "invar s" "delete t k s = (None, s')" "t \<le> t'" "retrieve t' k s' = (Inr x, s'')"
  shows "x = None"
proof -
  have "invar s'" using invar_delete [of s t k] assms by simp
  then have "x = view s' t' k" using assms(4) by (rule retrieve_view)
  then show ?thesis using view_delete_key [OF assms(1-3)] by simp
qed

end

end
