(* ===== verification/Redis_Cache.thy ===== *)
theory Redis_Cache
  imports Cache_Iface
begin

text \<open>
  The Redis backend, \<open>src/cache/redis/redis.go\<close>.  The client library and the server behind it are a
  parameter: a record of the commands the program issues, over a server state \<open>'s\<close> that other
  endpoints may share.  \<open>redis_laws\<close> is the documented behaviour the program relies on, stated for a
  function \<open>db\<close> that gives the value a key has in a server state at a time.  A command may fail; a
  failed write may or may not have taken effect.

  The backend interprets the interface \<open>frame_cache\<close> for every client that keeps the laws.
\<close>

section \<open>The client\<close>

datatype get_reply = GetVal bytes | GetNil | GetErr err

record 's redis_client =
  rc_Ping :: "'s \<Rightarrow> err option \<times> 's"
  rc_Set :: "time \<Rightarrow> bytes \<Rightarrow> bytes \<Rightarrow> duration \<Rightarrow> 's \<Rightarrow> err option \<times> 's"
  rc_Get :: "time \<Rightarrow> bytes \<Rightarrow> 's \<Rightarrow> get_reply \<times> 's"
  rc_Del :: "time \<Rightarrow> bytes \<Rightarrow> 's \<Rightarrow> err option \<times> 's"
  rc_SetNX :: "time \<Rightarrow> bytes \<Rightarrow> bytes \<Rightarrow> duration \<Rightarrow> 's \<Rightarrow> (bool \<times> err option) \<times> 's"
  rc_Close :: "'s \<Rightarrow> err option \<times> 's"

text \<open>
  What a write of \<open>v\<close> under \<open>k\<close> at \<open>t\<close> with an expiry does to the visible database: the key has the
  value until the deadline and is gone after it, other keys keep theirs.
\<close>

definition writes :: "('s \<Rightarrow> time \<Rightarrow> bytes \<Rightarrow> bytes option) \<Rightarrow> time \<Rightarrow> bytes \<Rightarrow> bytes \<Rightarrow> duration \<Rightarrow> 's \<Rightarrow> 's \<Rightarrow> bool" where
  "writes db t k v ttl s s' \<longleftrightarrow>
     (\<forall>t' \<ge> t. (t' < t + ttl \<longrightarrow> db s' t' k = Some v) \<and> (t' > t + ttl \<longrightarrow> db s' t' k = None)
        \<and> (t' = t + ttl \<longrightarrow> db s' t' k = Some v \<or> db s' t' k = None)
        \<and> (\<forall>k'. k' \<noteq> k \<longrightarrow> db s' t' k' = db s t' k'))"

definition same_db :: "('s \<Rightarrow> time \<Rightarrow> bytes \<Rightarrow> bytes option) \<Rightarrow> time \<Rightarrow> 's \<Rightarrow> 's \<Rightarrow> bool" where
  "same_db db t s s' \<longleftrightarrow> (\<forall>t' \<ge> t. \<forall>k. db s' t' k = db s t' k)"

definition removes :: "('s \<Rightarrow> time \<Rightarrow> bytes \<Rightarrow> bytes option) \<Rightarrow> time \<Rightarrow> bytes \<Rightarrow> 's \<Rightarrow> 's \<Rightarrow> bool" where
  "removes db t k s s' \<longleftrightarrow>
     (\<forall>t' \<ge> t. db s' t' k = None \<and> (\<forall>k'. k' \<noteq> k \<longrightarrow> db s' t' k' = db s t' k'))"

text \<open>
  The documented behaviour of \<open>GET\<close>, \<open>SET\<close> with an expiry, \<open>DEL\<close> and \<open>SET NX\<close> with an expiry.
\<close>

definition get_law :: "('s \<Rightarrow> time \<Rightarrow> bytes \<Rightarrow> bytes option) \<Rightarrow> 's redis_client \<Rightarrow> bool" where
  "get_law db c \<longleftrightarrow> (\<forall>t k s. same_db db t s (snd (rc_Get c t k s))
     \<and> (case fst (rc_Get c t k s) of
          GetVal v \<Rightarrow> db s t k = Some v | GetNil \<Rightarrow> db s t k = None | GetErr _ \<Rightarrow> True))"

definition set_law :: "('s \<Rightarrow> time \<Rightarrow> bytes \<Rightarrow> bytes option) \<Rightarrow> 's redis_client \<Rightarrow> bool" where
  "set_law db c \<longleftrightarrow> (\<forall>t k v ttl s. (\<forall>t' \<ge> t. \<forall>k'. k' \<noteq> k \<longrightarrow> db (snd (rc_Set c t k v ttl s)) t' k' = db s t' k')
     \<and> (ttl_ok ttl \<longrightarrow>
         writes db t k v ttl s (snd (rc_Set c t k v ttl s))
         \<or> fst (rc_Set c t k v ttl s) \<noteq> None \<and> same_db db t s (snd (rc_Set c t k v ttl s))))"

definition del_law :: "('s \<Rightarrow> time \<Rightarrow> bytes \<Rightarrow> bytes option) \<Rightarrow> 's redis_client \<Rightarrow> bool" where
  "del_law db c \<longleftrightarrow> (\<forall>t k s. removes db t k s (snd (rc_Del c t k s))
     \<or> fst (rc_Del c t k s) \<noteq> None \<and> same_db db t s (snd (rc_Del c t k s)))"

text \<open>\<open>SET NX\<close> answers true when the key was absent and is now set, false when it was present; with
  an error the answer is false.\<close>

definition setnx_law :: "('s \<Rightarrow> time \<Rightarrow> bytes \<Rightarrow> bytes option) \<Rightarrow> 's redis_client \<Rightarrow> bool" where
  "setnx_law db c \<longleftrightarrow> (\<forall>t k v ttl s. ttl_ok ttl \<longrightarrow>
     (case rc_SetNX c t k v ttl s of ((ok, e), s') \<Rightarrow>
        (if e \<noteq> None then \<not> ok \<and> (same_db db t s s' \<or> db s t k = None \<and> writes db t k v ttl s s')
         else ok = (db s t k = None)
              \<and> (if ok then writes db t k v ttl s s' else same_db db t s s'))))"

definition redis_laws :: "('s \<Rightarrow> time \<Rightarrow> bytes \<Rightarrow> bytes option) \<Rightarrow> 's redis_client \<Rightarrow> bool" where
  "redis_laws db c \<longleftrightarrow> get_law db c \<and> set_law db c \<and> del_law db c \<and> setnx_law db c"

section \<open>The backend\<close>

record 's rediscache =
  rd_client :: "'s redis_client"
  rd_prefix :: bytes
  rd_server :: 's

text \<open>\<open>New\<close>: connect and ping; \<open>connect\<close> is \<open>redis.NewClient\<close> for the address.\<close>

definition redis_New :: "(bytes \<Rightarrow> 's redis_client) \<Rightarrow> bytes \<Rightarrow> bytes \<Rightarrow> 's \<Rightarrow> err + 's rediscache" where
  "redis_New connect addr prefix s =
     (let client = connect addr
      in case rc_Ping client s of
           (Some e, _) \<Rightarrow> Inl (Err ''redis ping failed'')
         | (None, s') \<Rightarrow> Inr \<lparr>rd_client = client, rd_prefix = prefix, rd_server = s'\<rparr>)"

definition redis_Store :: "nat \<Rightarrow> time \<Rightarrow> bytes \<Rightarrow> bytes \<Rightarrow> duration \<Rightarrow> 's rediscache \<Rightarrow> err option \<times> 's rediscache" where
  "redis_Store r now key v ttl c =
     (let redisKey = rd_prefix c @ key;
          (e, s') = rc_Set (rd_client c) now redisKey v ttl (rd_server c)
      in (e, c\<lparr>rd_server := s'\<rparr>))"

definition redis_Retrieve :: "time \<Rightarrow> bytes \<Rightarrow> 's rediscache \<Rightarrow> (err + bytes option) \<times> 's rediscache" where
  "redis_Retrieve now key c =
     (let redisKey = rd_prefix c @ key;
          (reply, s') = rc_Get (rd_client c) now redisKey (rd_server c);
          c' = c\<lparr>rd_server := s'\<rparr>
      in case reply of
           GetNil \<Rightarrow> (Inr None, c')
         | GetErr e \<Rightarrow> (Inl e, c')
         | GetVal v \<Rightarrow> (Inr (Some v), c'))"

definition redis_Delete :: "time \<Rightarrow> bytes \<Rightarrow> 's rediscache \<Rightarrow> err option \<times> 's rediscache" where
  "redis_Delete now key c =
     (let redisKey = rd_prefix c @ key;
          (e, s') = rc_Del (rd_client c) now redisKey (rd_server c)
      in (e, c\<lparr>rd_server := s'\<rparr>))"

definition redis_Close :: "'s rediscache \<Rightarrow> err option \<times> 's rediscache" where
  "redis_Close c = (let (e, s') = rc_Close (rd_client c) (rd_server c) in (e, c\<lparr>rd_server := s'\<rparr>))"

definition redis_SetNX :: "time \<Rightarrow> bytes \<Rightarrow> bytes \<Rightarrow> duration \<Rightarrow> 's rediscache \<Rightarrow> (bool \<times> err option) \<times> 's rediscache" where
  "redis_SetNX now key v ttl c =
     (let redisKey = rd_prefix c @ key;
          (res, s') = rc_SetNX (rd_client c) now redisKey v ttl (rd_server c)
      in (res, c\<lparr>rd_server := s'\<rparr>))"

section \<open>The backend keeps the contract of the interface\<close>

definition redis_view :: "('s \<Rightarrow> time \<Rightarrow> bytes \<Rightarrow> bytes option) \<Rightarrow> 's rediscache \<Rightarrow> time \<Rightarrow> bytes \<Rightarrow> bytes option" where
  "redis_view db c t k = db (rd_server c) t (rd_prefix c @ k)"

definition redis_inv :: "('s \<Rightarrow> time \<Rightarrow> bytes \<Rightarrow> bytes option) \<Rightarrow> 's rediscache \<Rightarrow> bool" where
  "redis_inv db c \<longleftrightarrow> redis_laws db (rd_client c)"

lemma redis_Store_eq:
  "redis_Store r t k v ttl c =
    (fst (rc_Set (rd_client c) t (rd_prefix c @ k) v ttl (rd_server c)),
     c\<lparr>rd_server := snd (rc_Set (rd_client c) t (rd_prefix c @ k) v ttl (rd_server c))\<rparr>)"
  by (simp add: redis_Store_def Let_def case_prod_beta)

lemma redis_Delete_eq:
  "redis_Delete t k c =
    (fst (rc_Del (rd_client c) t (rd_prefix c @ k) (rd_server c)),
     c\<lparr>rd_server := snd (rc_Del (rd_client c) t (rd_prefix c @ k) (rd_server c))\<rparr>)"
  by (simp add: redis_Delete_def Let_def case_prod_beta)

lemma redis_Retrieve_snd:
  "snd (redis_Retrieve t k c) = c\<lparr>rd_server := snd (rc_Get (rd_client c) t (rd_prefix c @ k) (rd_server c))\<rparr>"
  by (simp add: redis_Retrieve_def Let_def case_prod_beta split: get_reply.split)

lemma redis_inv_cong [simp]: "redis_inv db (c\<lparr>rd_server := s\<rparr>) = redis_inv db c"
  by (simp add: redis_inv_def)

lemma writes_key:
  assumes "writes db t k v ttl s s'" "t \<le> t'" "db s' t' k = Some w"
  shows "w = v \<and> t' \<le> t + ttl"
proof -
  have "(t' < t + ttl \<longrightarrow> db s' t' k = Some v) \<and> (t' > t + ttl \<longrightarrow> db s' t' k = None)
      \<and> (t' = t + ttl \<longrightarrow> db s' t' k = Some v \<or> db s' t' k = None)"
    using assms(1) [unfolded writes_def, THEN spec, THEN mp, OF assms(2)] by simp
  then show ?thesis using assms(3) by (cases "t' < t + ttl"; cases "t' = t + ttl") auto
qed

lemma writes_live: "writes db t k v ttl s s' \<Longrightarrow> t \<le> t' \<Longrightarrow> t' < t + ttl \<Longrightarrow> db s' t' k = Some v"
  by (simp add: writes_def)

lemma get_lawD:
  "get_law db c \<Longrightarrow> same_db db t s (snd (rc_Get c t k s))
     \<and> (case fst (rc_Get c t k s) of
          GetVal v \<Rightarrow> db s t k = Some v | GetNil \<Rightarrow> db s t k = None | GetErr _ \<Rightarrow> True)"
  by (simp add: get_law_def)

lemma set_lawD:
  "set_law db c \<Longrightarrow> ttl_ok ttl \<Longrightarrow> writes db t k v ttl s (snd (rc_Set c t k v ttl s))
     \<or> fst (rc_Set c t k v ttl s) \<noteq> None \<and> same_db db t s (snd (rc_Set c t k v ttl s))"
  by (simp add: set_law_def)

lemma del_lawD:
  "del_law db c \<Longrightarrow> removes db t k s (snd (rc_Del c t k s))
     \<or> fst (rc_Del c t k s) \<noteq> None \<and> same_db db t s (snd (rc_Del c t k s))"
  by (simp add: del_law_def)

interpretation redis: frame_cache redis_Store redis_Retrieve redis_Delete "redis_view db" "redis_inv db"
  for db :: "'s \<Rightarrow> time \<Rightarrow> bytes \<Rightarrow> bytes option"
proof unfold_locales
  fix s s' :: "'s rediscache" and r t t' k k' v ttl w x
  let ?k = "rd_prefix s @ k"
  show "redis_inv db s \<Longrightarrow> redis_inv db (snd (redis_Store r t k v ttl s))" by (simp add: redis_Store_eq)
  show "redis_inv db s \<Longrightarrow> redis_inv db (snd (redis_Retrieve t k s))" by (simp add: redis_Retrieve_snd)
  show "redis_inv db s \<Longrightarrow> redis_inv db (snd (redis_Delete t k s))" by (simp add: redis_Delete_eq)
  assume inv: "redis_inv db s"
  have get: "get_law db (rd_client s)" and set: "set_law db (rd_client s)" and del: "del_law db (rd_client s)"
    using inv by (simp_all add: redis_inv_def redis_laws_def)
  show "redis_Retrieve t k s = (Inr x, s') \<Longrightarrow> x = redis_view db s t k"
    using get_lawD [OF get, of t "rd_server s" ?k]
    by (auto simp: redis_Retrieve_def redis_view_def Let_def case_prod_beta split: get_reply.splits)
  show "t \<le> t' \<Longrightarrow> redis_view db (snd (redis_Retrieve t k s)) t' k' = redis_view db s t' k'"
    using get by (simp add: redis_Retrieve_snd redis_view_def get_law_def same_db_def)
  show "ttl_ok ttl \<Longrightarrow> redis_Store r t k v ttl s = (None, s') \<Longrightarrow> t \<le> t' \<Longrightarrow> t' < t + ttl \<Longrightarrow>
      redis_view db s' t' k = Some v"
    using set_lawD [OF set, of ttl t ?k v "rd_server s"]
    by (auto simp: redis_Store_eq redis_view_def writes_live)
  show "ttl_ok ttl \<Longrightarrow> t \<le> t' \<Longrightarrow> redis_view db (snd (redis_Store r t k v ttl s)) t' k = Some w \<Longrightarrow>
      w = v \<and> t' \<le> t + ttl \<or> fst (redis_Store r t k v ttl s) \<noteq> None \<and> redis_view db s t' k = Some w"
    using set_lawD [OF set, of ttl t ?k v "rd_server s"]
    by (auto simp: redis_Store_eq redis_view_def same_db_def dest: writes_key)
  show "t \<le> t' \<Longrightarrow> k' \<noteq> k \<Longrightarrow> redis_view db (snd (redis_Store r t k v ttl s)) t' k' = Some w \<Longrightarrow>
      redis_view db s t' k' = Some w"
    using set by (simp add: redis_Store_eq redis_view_def set_law_def)
  show "redis_Delete t k s = (None, s') \<Longrightarrow> t \<le> t' \<Longrightarrow> redis_view db s' t' k = None"
    using del_lawD [OF del, of t ?k "rd_server s"]
    by (auto simp: redis_Delete_eq redis_view_def removes_def)
  show "t \<le> t' \<Longrightarrow> redis_view db (snd (redis_Delete t k s)) t' k' = Some w \<Longrightarrow> redis_view db s t' k' = Some w"
    using del_lawD [OF del, of t ?k "rd_server s"]
    by (cases "k' = k") (auto simp: redis_Delete_eq redis_view_def removes_def same_db_def)
  show "t \<le> t' \<Longrightarrow> k' \<noteq> k \<Longrightarrow> redis_view db (snd (redis_Delete t k s)) t' k' = redis_view db s t' k'"
    using del_lawD [OF del, of t ?k "rd_server s"]
    by (auto simp: redis_Delete_eq redis_view_def removes_def same_db_def)
qed

section \<open>A reference client\<close>

text \<open>
  A client over an in-process database with deadlines, on which every command succeeds.  It shows
  that the laws can hold together and serves the witnesses.
\<close>

type_synonym ref_db = "(bytes \<times> bytes \<times> time) list"

definition ref_view :: "ref_db \<Rightarrow> time \<Rightarrow> bytes \<Rightarrow> bytes option" where
  "ref_view s t k = (case map_of s k of None \<Rightarrow> None | Some (v, d) \<Rightarrow> if t < d then Some v else None)"

definition ref_redis :: "ref_db redis_client" where
  "ref_redis = \<lparr>
     rc_Ping = \<lambda>s. (None, s),
     rc_Set = \<lambda>t k v ttl s. (None, AList.update k (v, t + ttl) s),
     rc_Get = \<lambda>t k s. (case ref_view s t k of None \<Rightarrow> GetNil | Some v \<Rightarrow> GetVal v, s),
     rc_Del = \<lambda>t k s. (None, AList.delete k s),
     rc_SetNX = \<lambda>t k v ttl s. (if ref_view s t k = None then ((True, None), AList.update k (v, t + ttl) s)
       else ((False, None), s)),
     rc_Close = \<lambda>s. (None, s)\<rparr>"

lemma ref_writes: "writes ref_view t k v ttl s (AList.update k (v, t + ttl) s)"
  by (simp add: writes_def ref_view_def)

lemma ref_redis_laws: "redis_laws ref_view ref_redis"
  by (auto simp: redis_laws_def get_law_def set_law_def del_law_def setnx_law_def ref_redis_def
      ref_writes same_db_def removes_def split: option.split)
    (auto simp: ref_view_def)

lemma ref_Store:
  "rd_client c = ref_redis \<Longrightarrow> redis_Store r t k v ttl c
    = (None, c\<lparr>rd_server := AList.update (rd_prefix c @ k) (v, t + ttl) (rd_server c)\<rparr>)"
  by (simp add: redis_Store_def ref_redis_def)

lemma ref_Retrieve:
  "rd_client c = ref_redis \<Longrightarrow> redis_Retrieve t k c = (Inr (ref_view (rd_server c) t (rd_prefix c @ k)), c)"
  by (simp add: redis_Retrieve_def ref_redis_def split: option.split)

section \<open>Properties\<close>

text \<open>C17: \<open>Store\<close> then \<open>Retrieve\<close> of the same key within the time-to-live returns the stored frame
  verbatim, for every client that behaves as documented, whenever neither call reports an
  error.\<close>

theorem redis_store_retrieve:
  assumes "redis_laws db (rd_client c)" "ttl_ok ttl"
    and "redis_Store r t k v ttl c = (None, c')" "t \<le> t'" "t' < t + ttl"
    and "redis_Retrieve t' k c' = (Inr x, c'')"
  shows "x = Some v"
  using redis.store_then_retrieve [of db c ttl r t k v c' t' x c''] assms
  by (simp add: redis_inv_def)

theorem redis_store_retrieve_witness:
  "\<exists>c' c''. redis_Store 0 0 [7] [1, 2] second \<lparr>rd_client = ref_redis, rd_prefix = [9], rd_server = []\<rparr> = (None, c')
    \<and> redis_Retrieve 5 [7] c' = (Inr (Some [1, 2]), c'')"
proof -
  let ?c = "\<lparr>rd_client = ref_redis, rd_prefix = [9], rd_server = []\<rparr>"
  obtain c' where s: "redis_Store 0 0 [7] [1, 2] second ?c = (None, c')" and "rd_client c' = ref_redis"
    by (simp add: ref_Store)
  then obtain x c'' where r: "redis_Retrieve 5 [7] c' = (Inr x, c'')"
    by (simp add: ref_Retrieve)
  have "x = Some [1, 2]"
    using redis_store_retrieve [OF _ _ s _ _ r, of ref_view] by (simp add: ref_redis_laws ttl_ok_def)
  then show ?thesis using s r by blast
qed

end
