(* ===== verification/Retransmit.thy ===== *)
theory Retransmit
  imports Deps Metrics Redis_Cache
begin

text \<open>
  The multicast retransmitter, \<open>src/retransmit/retransmit.go\<close>: the egress sockets, the cross-instance
  dedup gate through Redis, the choice of the multicast group from the frame version, and the send
  loop over the egress interfaces.

  The sockets are a Go map from interface name to connection (a number); the loop ranges over it in
  an order the runtime chooses, given to \<open>Retransmit\<close> as a permutation.  What each \<open>WriteTo\<close> returns is
  an argument; the datagrams written are collected in the state, as are the calls on the shared
  recorder and the state of the shared Redis cache.
\<close>

section \<open>State\<close>

record retransmitter =
  rt_engine :: shard_engine
  rt_ifaces :: "iface list"
  rt_egressPort :: int
  rt_dedupWindow :: duration
  rt_sockets :: "(bytes \<times> nat) list"

text \<open>\<open>New\<close>; the recorder and the Redis cache are shared with other components and live in
  \<open>rt_world\<close>.\<close>

definition rt_New :: "shard_engine \<Rightarrow> iface list \<Rightarrow> int \<Rightarrow> duration \<Rightarrow> retransmitter" where
  "rt_New engine ifaces egressPort dedupWindow =
     \<lparr>rt_engine = engine, rt_ifaces = ifaces, rt_egressPort = egressPort,
      rt_dedupWindow = dedupWindow, rt_sockets = []\<rparr>"

record 's rt_world =
  w_redis :: "'s rediscache option"
  w_rec :: "recorder option"
  w_egress :: "(nat \<times> bytes \<times> udp_addr) list"

section \<open>Sockets\<close>

text \<open>
  The system calls of \<open>openEgressSocket\<close>: \<open>so_listen\<close> is \<open>net.ListenPacket\<close> (a connection or an
  error), \<open>so_isUDP\<close> the type assertion, \<open>so_file\<close> the descriptor of \<open>udpConn.File()\<close>, \<open>so_setopt\<close>
  the result of setting the multicast interface.  The list of open descriptors is threaded through.
\<close>

record sock_env =
  so_listen :: "err + nat"
  so_isUDP :: bool
  so_file :: "err + nat"
  so_setopt :: "nat \<Rightarrow> int \<Rightarrow> err option"

definition openEgressSocket :: "sock_env \<Rightarrow> iface \<Rightarrow> nat list \<Rightarrow> (err + nat) \<times> nat list" where
  "openEgressSocket so ifc fds =
     (case so_listen so of
        Inl e \<Rightarrow> (Inl (Err ''listen''), fds)
      | Inr conn \<Rightarrow>
          let fds1 = conn # fds
          in if \<not> so_isUDP so then (Inl (Err ''not a UDP connection''), remove1 conn fds1)
             else (case so_file so of
                 Inl e \<Rightarrow> (Inl (Err ''get file descriptor''), remove1 conn fds1)
               | Inr file \<Rightarrow>
                   let fds2 = file # fds1
                   in (case so_setopt so file (if_Index ifc) of
                         Some e \<Rightarrow> (Inl (Err ''set multicast interface''), remove1 file (remove1 conn fds2))
                       | None \<Rightarrow> (Inr conn, remove1 file fds2))))"

text \<open>\<open>Open\<close>: one socket per interface, until the first error.\<close>

fun open_loop :: "(iface \<Rightarrow> sock_env) \<Rightarrow> iface list \<Rightarrow> (bytes \<times> nat) list \<Rightarrow> nat list
    \<Rightarrow> err option \<times> (bytes \<times> nat) list \<times> nat list" where
  "open_loop env [] socks fds = (None, socks, fds)"
| "open_loop env (ifc # ifs) socks fds =
     (case openEgressSocket (env ifc) ifc fds of
        (Inl e, fds') \<Rightarrow> (Some (Err ''open egress socket''), socks, fds')
      | (Inr conn, fds') \<Rightarrow> open_loop env ifs (AList.update (if_Name ifc) conn socks) fds')"

definition rt_Open :: "(iface \<Rightarrow> sock_env) \<Rightarrow> retransmitter \<Rightarrow> nat list \<Rightarrow> err option \<times> retransmitter \<times> nat list" where
  "rt_Open env r fds =
     (case open_loop env (rt_ifaces r) (rt_sockets r) fds of
        (e, socks, fds') \<Rightarrow> (e, r\<lparr>rt_sockets := socks\<rparr>, fds'))"

text \<open>\<open>Close\<close>: every socket is closed, the last error is returned; \<open>cl\<close> is what each \<open>Close\<close> call
  returns.\<close>

fun close_loop :: "(nat \<Rightarrow> err option) \<Rightarrow> (bytes \<times> nat) list \<Rightarrow> err option \<Rightarrow> nat list \<Rightarrow> err option \<times> nat list" where
  "close_loop cl [] lastErr fds = (lastErr, fds)"
| "close_loop cl ((name, conn) # socks) lastErr fds =
     close_loop cl socks (case cl conn of Some e \<Rightarrow> Some e | None \<Rightarrow> lastErr) (remove1 conn fds)"

definition rt_Close :: "(nat \<Rightarrow> err option) \<Rightarrow> retransmitter \<Rightarrow> nat list \<Rightarrow> err option \<times> nat list" where
  "rt_Close cl r fds = close_loop cl (rt_sockets r) None fds"

section \<open>Retransmission\<close>

text \<open>Key: SeqNum, bytes 48 to 55 of the frame.\<close>

definition buildDedupKey :: "bytes \<Rightarrow> bytes" where
  "buildDedupKey raw = (if length raw < 56 then [] else sub raw 48 56)"

text \<open>The multicast group by frame version.\<close>

definition retransmit_group :: "frame_pkg \<Rightarrow> shard_pkg \<Rightarrow> retransmitter \<Rightarrow> bytes \<Rightarrow> txid \<Rightarrow> udp_addr" where
  "retransmit_group fp sp r raw txID =
     (let eng = rt_engine r;
          ctrl = (\<lambda>g. \<lparr>ua_ip = sp_ControlGroupAddr sp (se_Prefix eng) (se_GroupID eng) g,
                       ua_port = rt_egressPort r\<rparr>);
          shardAddr = se_Addr eng (se_GroupIndex eng txID) (rt_egressPort r)
      in if length raw \<ge> 7 then
           (if raw ! 6 = fp_FrameVerV4 fp then ctrl (sp_CtrlGroupControl sp)
            else if raw ! 6 = fp_FrameVerV5 fp then ctrl (sp_CtrlGroupSubtreeAnnounce sp)
            else if raw ! 6 = fp_FrameVerV6 fp then ctrl (sp_CtrlGroupControl sp)
            else shardAddr)
         else shardAddr)"

text \<open>The send loop: it stops at the first failed write.\<close>

fun egress_loop :: "(nat \<Rightarrow> err option) \<Rightarrow> bytes \<Rightarrow> udp_addr \<Rightarrow> (bytes \<times> nat) list \<Rightarrow> 's rt_world
    \<Rightarrow> err option \<times> 's rt_world" where
  "egress_loop wr raw addr [] w = (None, w)"
| "egress_loop wr raw addr ((name, conn) # socks) w =
     (case wr conn of
        Some e \<Rightarrow> (Some e, w\<lparr>w_rec := on_rec rec_CacheError (w_rec w)\<rparr>)
      | None \<Rightarrow> egress_loop wr raw addr socks (w\<lparr>w_egress := w_egress w @ [(conn, raw, addr)]\<rparr>))"

text \<open>
  The dedup gate: whether the frame may be sent, with the Redis cache after \<open>SET NX\<close>.
\<close>

definition dedup_gate :: "retransmitter \<Rightarrow> time \<Rightarrow> bytes \<Rightarrow> 's rt_world \<Rightarrow> bool \<times> 's rt_world" where
  "dedup_gate r now raw w =
     (case w_redis w of
        None \<Rightarrow> (True, w)
      | Some rc \<Rightarrow>
          let dedupKey = buildDedupKey raw
          in if length dedupKey > 0 then
               (let ((ok, e), rc') = redis_SetNX now dedupKey (str ''1'') (rt_dedupWindow r) rc;
                    w' = w\<lparr>w_redis := Some rc'\<rparr>
                in if \<not> ok then (False, w'\<lparr>w_rec := on_rec rec_RetransmitDedup (w_rec w')\<rparr>)
                   else (True, w'))
             else (True, w))"

text \<open>\<open>Retransmit\<close>; \<open>ord\<close> is the order in which the runtime ranges over the sockets.\<close>

definition Retransmit :: "frame_pkg \<Rightarrow> shard_pkg \<Rightarrow> retransmitter \<Rightarrow> time \<Rightarrow> (nat \<Rightarrow> err option)
    \<Rightarrow> nat list \<Rightarrow> bytes \<Rightarrow> txid \<Rightarrow> 's rt_world \<Rightarrow> err option \<times> 's rt_world" where
  "Retransmit fp sp r now wr ord raw txID w =
     (case dedup_gate r now raw w of
        (False, w') \<Rightarrow> (None, w')
      | (True, w') \<Rightarrow> egress_loop wr raw (retransmit_group fp sp r raw txID)
          (range_over ord (rt_sockets r)) w')"

section \<open>Lemmas\<close>

lemma egress_all:
  "(\<And>c. c \<in> snd ` set socks \<Longrightarrow> wr c = None) \<Longrightarrow>
    egress_loop wr raw addr socks w = (None, w\<lparr>w_egress := w_egress w @ map (\<lambda>(n, c). (c, raw, addr)) socks\<rparr>)"
proof (induction socks arbitrary: w)
  case (Cons x socks)
  then show ?case by (cases x) simp
qed simp

lemma egress_range:
  assumes "\<And>n c. (n, c) \<in> set socks \<Longrightarrow> wr c = None"
  shows "egress_loop wr raw addr (range_over ord socks) w
    = (None, w\<lparr>w_egress := w_egress w @ map (\<lambda>(n, c). (c, raw, addr)) (range_over ord socks)\<rparr>)"
  using assms by (intro egress_all) auto

lemma egress_prefix:
  "\<exists>k \<le> length socks. w_egress (snd (egress_loop wr raw addr socks w))
     = w_egress w @ map (\<lambda>(n, c). (c, raw, addr)) (take k socks)
     \<and> (fst (egress_loop wr raw addr socks w) = None \<longleftrightarrow> k = length socks)"
proof (induction socks arbitrary: w)
  case (Cons x socks)
  obtain n c where x: "x = (n, c)" by (cases x)
  show ?case
  proof (cases "wr c")
    case None
    from Cons [of "w\<lparr>w_egress := w_egress w @ [(c, raw, addr)]\<rparr>"] obtain k where
      "k \<le> length socks"
      "w_egress (snd (egress_loop wr raw addr (x # socks) w))
        = (w_egress w @ [(c, raw, addr)]) @ map (\<lambda>(n, c). (c, raw, addr)) (take k socks)"
      "fst (egress_loop wr raw addr (x # socks) w) = None \<longleftrightarrow> k = length socks"
      using None x by auto
    then show ?thesis using x by (intro exI [of _ "Suc k"]) simp
  next
    case (Some e)
    then show ?thesis using x by (intro exI [of _ 0]) simp
  qed
qed simp

lemma buildDedupKey_length: "length (buildDedupKey raw) = (if length raw < 56 then 0 else 8)"
  by (simp add: buildDedupKey_def)

lemma egress_redis [simp]: "w_redis (snd (egress_loop wr raw addr socks w)) = w_redis w"
proof (induction socks arbitrary: w)
  case (Cons x socks)
  then show ?case by (cases x) (simp split: option.split)
qed simp

text \<open>One \<open>SET NX\<close> through the cache object.\<close>

lemma redis_SetNX_eq:
  "redis_SetNX t k v ttl c =
    (fst (rc_SetNX (rd_client c) t (rd_prefix c @ k) v ttl (rd_server c)),
     c\<lparr>rd_server := snd (rc_SetNX (rd_client c) t (rd_prefix c @ k) v ttl (rd_server c))\<rparr>)"
  by (simp add: redis_SetNX_def Let_def case_prod_beta)

lemma setnx_lawD:
  assumes "setnx_law db c" "ttl_ok ttl" "rc_SetNX c t k v ttl s = ((ok, e), s')"
  shows "if e \<noteq> None then \<not> ok \<and> (same_db db t s s' \<or> db s t k = None \<and> writes db t k v ttl s s')
     else ok = (db s t k = None) \<and> (if ok then writes db t k v ttl s s' else same_db db t s s')"
proof -
  have "case rc_SetNX c t k v ttl s of ((ok, e), s') \<Rightarrow>
      (if e \<noteq> None then \<not> ok \<and> (same_db db t s s' \<or> db s t k = None \<and> writes db t k v ttl s s')
       else ok = (db s t k = None) \<and> (if ok then writes db t k v ttl s s' else same_db db t s s'))"
    using assms(1) [unfolded setnx_law_def] assms(2) by simp
  then show ?thesis by (simp add: assms(3))
qed

lemma setnx_other_keys:
  assumes "setnx_law db c" "ttl_ok ttl" "k' \<noteq> k" "t \<le> t'"
  shows "db (snd (rc_SetNX c t k v ttl s)) t' k' = db s t' k'"
proof -
  obtain ok e s' where eq: "rc_SetNX c t k v ttl s = ((ok, e), s')" by (metis prod.exhaust_sel)
  show ?thesis
    using setnx_lawD [OF assms(1,2) eq] assms(3,4)
    by (auto simp: eq same_db_def writes_def split: if_splits)
qed

lemma dedup_gate_redis:
  assumes "w_redis w = Some rc" "56 \<le> length raw"
  shows "dedup_gate r t raw w =
    (let ((ok, e), rc') = redis_SetNX t (sub raw 48 56) (str ''1'') (rt_dedupWindow r) rc
     in (ok, w\<lparr>w_redis := Some rc', w_rec := (if ok then w_rec w else on_rec rec_RetransmitDedup (w_rec w))\<rparr>))"
proof -
  have "buildDedupKey raw = sub raw 48 56" "length (sub raw 48 56) = 8"
    using assms(2) by (simp_all add: buildDedupKey_def)
  then show ?thesis
    using assms(1) by (auto simp: dedup_gate_def Let_def case_prod_beta)
qed

text \<open>After a successful \<open>SET NX\<close> every other attempt within the window is refused.\<close>

lemma setnx_twice:
  assumes laws: "setnx_law db c" "setnx_law db c2" and ttl: "ttl_ok ttl" "ttl_ok ttl2"
    and first: "fst (fst (rc_SetNX c t k v ttl s))" and time: "t \<le> t2" "t2 < t + ttl"
  shows "\<not> fst (fst (rc_SetNX c2 t2 k v2 ttl2 (snd (rc_SetNX c t k v ttl s))))"
proof -
  obtain ok e s' where eq: "rc_SetNX c t k v ttl s = ((ok, e), s')" by (metis prod.exhaust_sel)
  then have "writes db t k v ttl s s'"
    using setnx_lawD [OF laws(1) ttl(1) eq] first by (simp split: if_splits)
  then have present: "db s' t2 k = Some v" using time by (simp add: writes_live)
  obtain ok2 e2 s2 where eq2: "rc_SetNX c2 t2 k v2 ttl2 s' = ((ok2, e2), s2)" by (metis prod.exhaust_sel)
  then have "\<not> ok2"
    using setnx_lawD [OF laws(2) ttl(2) eq2] present by (simp split: if_splits)
  then show ?thesis by (simp add: eq eq2)
qed

text \<open>Sockets: on an error nothing stays open, on success exactly the connection.\<close>

lemma openEgressSocket_fds:
  "openEgressSocket so ifc fds = (res, fds') \<Longrightarrow>
    (case res of Inl e \<Rightarrow> mset fds' = mset fds | Inr c \<Rightarrow> so_listen so = Inr c \<and> mset fds' = mset (c # fds))"
  by (auto simp: openEgressSocket_def Let_def split: sum.splits if_splits option.splits)

lemma update_fresh: "k \<notin> fst ` set m \<Longrightarrow> AList.update k v m = m @ [(k, v)]"
  by (induction m) auto

lemma open_loop_fds:
  assumes "open_loop env ifs socks fds = (None, socks', fds')"
    and "distinct (map if_Name ifs)" "\<forall>i \<in> set ifs. if_Name i \<notin> fst ` set socks"
  shows "\<exists>new. socks' = socks @ new \<and> map fst new = map if_Name ifs
    \<and> mset fds' = mset (map snd new) + mset fds"
  using assms
proof (induction ifs arbitrary: socks fds)
  case (Cons i ifs)
  from Cons.prems(1) obtain conn fds1 where o: "openEgressSocket (env i) i fds = (Inr conn, fds1)"
    and rest: "open_loop env ifs (socks @ [(if_Name i, conn)]) fds1 = (None, socks', fds')"
    using Cons.prems(3) by (auto simp: update_fresh split: prod.splits sum.splits)
  have "\<forall>j \<in> set ifs. if_Name j \<notin> fst ` set (socks @ [(if_Name i, conn)])"
    using Cons.prems(2,3) by (auto simp: image_iff)
  then have "\<exists>new. socks' = (socks @ [(if_Name i, conn)]) @ new \<and> map fst new = map if_Name ifs
      \<and> mset fds' = mset (map snd new) + mset fds1"
    using Cons.prems(2) by (intro Cons.IH [OF rest]) auto
  then obtain new where "socks' = socks @ (if_Name i, conn) # new" "map fst new = map if_Name ifs"
    "mset fds' = mset (map snd new) + mset fds1" by auto
  then show ?case using openEgressSocket_fds [OF o]
    by (intro exI [of _ "(if_Name i, conn) # new"]) simp
qed simp

lemma close_loop_fds:
  "mset (map snd socks) \<subseteq># mset fds \<Longrightarrow>
    mset (snd (close_loop cl socks e fds)) = mset fds - mset (map snd socks)"
proof (induction socks arbitrary: e fds)
  case (Cons x socks)
  obtain n c where x: "x = (n, c)" by (cases x)
  have sub: "mset (map snd socks) \<subseteq># mset (remove1 c fds)"
    using Cons.prems x by (simp add: insert_subset_eq_iff)
  show ?case using Cons.IH [OF sub] x by simp
qed simp

section \<open>Properties\<close>

text \<open>C10: Without Redis and with sockets that accept the write, a retransmission sends the cached
  frame verbatim exactly once on every egress socket, whatever order the runtime ranges over the sockets in, and reports no error.  With
  the frame versions as the source documents them, block control frames (version 4) and anchor frames (6) go to the
  control group, subtree data frames (5) to the subtree group, all others and those too short to have a version to the
  shard group of their TxID, always on the egress port.\<close>

theorem retransmit_sends_verbatim:
  assumes "w_redis w = None" "\<And>n c. (n, c) \<in> set (rt_sockets r) \<Longrightarrow> wr c = None"
    and "fp_FrameVerV4 fp = 4" "fp_FrameVerV5 fp = 5" "fp_FrameVerV6 fp = 6"
  shows "\<exists>sent addr. Retransmit fp sp r now wr ord raw txID w = (None, w\<lparr>w_egress := w_egress w @ sent\<rparr>)
    \<and> mset sent = image_mset (\<lambda>(n, c). (c, raw, addr)) (mset (rt_sockets r))
    \<and> addr = (if 7 \<le> length raw \<and> raw ! 6 \<in> {4, 6}
          then \<lparr>ua_ip = sp_ControlGroupAddr sp (se_Prefix (rt_engine r)) (se_GroupID (rt_engine r)) (sp_CtrlGroupControl sp),
             ua_port = rt_egressPort r\<rparr>
        else if 7 \<le> length raw \<and> raw ! 6 = 5
          then \<lparr>ua_ip = sp_ControlGroupAddr sp (se_Prefix (rt_engine r)) (se_GroupID (rt_engine r)) (sp_CtrlGroupSubtreeAnnounce sp),
             ua_port = rt_egressPort r\<rparr>
        else se_Addr (rt_engine r) (se_GroupIndex (rt_engine r) txID) (rt_egressPort r))"
proof -
  let ?o = "range_over ord (rt_sockets r)" and ?g = "retransmit_group fp sp r raw txID"
  have "Retransmit fp sp r now wr ord raw txID w = (None, w\<lparr>w_egress := w_egress w @
      map (\<lambda>(n, c). (c, raw, ?g)) ?o\<rparr>)"
    using assms(1) egress_range [OF assms(2)] by (simp add: Retransmit_def dedup_gate_def)
  then show ?thesis
    using assms(3-5)
    by (intro exI [of _ "map (\<lambda>(n, c). (c, raw, ?g)) ?o"] exI [of _ ?g]) (auto simp: retransmit_group_def Let_def)
qed

theorem retransmit_sends_verbatim_witness:
  "\<exists>sent. Retransmit ex_frame ex_shard
      (rt_New (ex_engine 0xFF05 11 8) [] 9001 second \<lparr>rt_sockets := [([1], 3), ([2], 4)]\<rparr>) 0 (\<lambda>_. None)
      [1, 0] [1, 2, 3, 0, 0, 0, 5] [] (\<lparr>w_redis = None, w_rec = None, w_egress = []\<rparr> :: unit rt_world)
    = (None, \<lparr>w_redis = None, w_rec = None, w_egress = sent\<rparr>)
    \<and> set sent = {3, 4} \<times> {([1, 2, 3, 0, 0, 0, 5], \<lparr>ua_ip = ex_group_addr 0xFF05 11 0xFFFB, ua_port = 9001\<rparr>)}"
proof -
  let ?r = "rt_New (ex_engine 0xFF05 11 8) [] 9001 second \<lparr>rt_sockets := [([1], 3), ([2], 4)]\<rparr>"
  let ?w = "\<lparr>w_redis = None, w_rec = None, w_egress = []\<rparr> :: unit rt_world" and ?raw = "[1, 2, 3, 0, 0, 0, 5] :: bytes"
  let ?g = "\<lparr>ua_ip = ex_group_addr 0xFF05 11 0xFFFB, ua_port = 9001\<rparr>"
  have h: "w_redis ?w = None" "fp_FrameVerV4 ex_frame = 4" "fp_FrameVerV5 ex_frame = 5" "fp_FrameVerV6 ex_frame = 6"
    by (simp_all add: ex_frame_def)
  obtain sent where "Retransmit ex_frame ex_shard ?r 0 (\<lambda>_. None) [1, 0] ?raw [] ?w
      = (None, ?w\<lparr>w_egress := w_egress ?w @ sent\<rparr>)"
    "mset sent = image_mset (\<lambda>(n, c). (c, ?raw, ?g)) (mset (rt_sockets ?r))"
    using retransmit_sends_verbatim [OF h(1) _ h(2-4), of ?r "\<lambda>_. None" ex_shard 0 "[1, 0]" ?raw "[]"]
    by (auto simp: rt_New_def ex_engine_def ex_shard_def)
  moreover from this(2) have "mset sent = mset [(3, ?raw, ?g), (4, ?raw, ?g)]" by simp
  then have "set sent = {(3, ?raw, ?g), (4, ?raw, ?g)}" using mset_eq_setD by fastforce
  ultimately show ?thesis by (intro exI [of _ sent]) auto
qed

text \<open>When a write fails, the frame has gone out on the sockets ranged over before it and on no
  other: the datagrams sent are the frame to the group on a prefix of the range order, the whole of
  it exactly when no error is returned.\<close>

lemma retransmit_prefix_on_error:
  assumes "dedup_gate r now raw w = (True, w')"
  shows "\<exists>k \<le> length (rt_sockets r).
    w_egress (snd (Retransmit fp sp r now wr ord raw txID w)) = w_egress w'
      @ map (\<lambda>(n, c). (c, raw, retransmit_group fp sp r raw txID)) (take k (range_over ord (rt_sockets r)))
    \<and> (fst (Retransmit fp sp r now wr ord raw txID w) = None \<longleftrightarrow> k = length (rt_sockets r))"
  using egress_prefix [of "range_over ord (rt_sockets r)" wr raw "retransmit_group fp sp r raw txID" w'] assms
    mset_eq_length [OF mset_range_over [of ord "rt_sockets r"]]
  by (simp add: Retransmit_def)

text \<open>C16: The dedup gate works across instances: once one endpoint has claimed a frame, no other
  endpoint that shares the Redis server and key prefix sends a frame with the same SeqNum bytes
  until the window has passed, and the refused call still reports success.  (The key holds the
  SeqNum only, so this also holds for frames of different flows.)\<close>

theorem dedup_claims_seqnum:
  assumes laws: "redis_laws db (rd_client rc1)" "redis_laws db (rd_client rc2)"
    and window: "ttl_ok (rt_dedupWindow r1)" "ttl_ok (rt_dedupWindow r2)"
    and frames: "56 \<le> length raw1" "56 \<le> length raw2" "sub raw1 48 56 = sub raw2 48 56"
    and one: "w_redis w1 = Some rc1" "dedup_gate r1 t1 raw1 w1 = (True, w1')" "w_redis w1' = Some rc1'"
    and two: "w_redis w2 = Some rc2" "rd_prefix rc2 = rd_prefix rc1" "rd_server rc2 = rd_server rc1'"
    and time: "t1 \<le> t2" "t2 < t1 + rt_dedupWindow r1"
  shows "\<exists>w2'. Retransmit fp sp r2 t2 wr ord raw2 txID w2 = (None, w2') \<and> w_egress w2' = w_egress w2"
proof -
  let ?k = "rd_prefix rc1 @ sub raw1 48 56"
  have nx: "setnx_law db (rd_client rc1)" "setnx_law db (rd_client rc2)"
    using laws by (simp_all add: redis_laws_def)
  have g1: "fst (fst (rc_SetNX (rd_client rc1) t1 ?k (str ''1'') (rt_dedupWindow r1) (rd_server rc1)))"
    "rd_server rc1' = snd (rc_SetNX (rd_client rc1) t1 ?k (str ''1'') (rt_dedupWindow r1) (rd_server rc1))"
    using one frames by (auto simp: dedup_gate_redis redis_SetNX_eq Let_def case_prod_beta)
  have "\<not> fst (fst (rc_SetNX (rd_client rc2) t2 ?k (str ''1'') (rt_dedupWindow r2) (rd_server rc2)))"
    using setnx_twice [OF nx window g1(1) time] g1(2) two(3) by simp
  then have "\<not> fst (dedup_gate r2 t2 raw2 w2)"
    "w_egress (snd (dedup_gate r2 t2 raw2 w2)) = w_egress w2"
    using two frames by (simp_all add: dedup_gate_redis redis_SetNX_eq Let_def case_prod_beta)
  then show ?thesis by (cases "dedup_gate r2 t2 raw2 w2") (auto simp: Retransmit_def)
qed

theorem dedup_claims_seqnum_witness:
  "\<exists>w2'. Retransmit ex_frame ex_shard (rt_New (ex_engine 0xFF05 11 8) [] 9001 second) 5 (\<lambda>_. None) [0]
      (replicate 56 0) [] (snd (dedup_gate (rt_New (ex_engine 0xFF05 11 8) [] 9001 second) 0 (replicate 60 0)
        \<lparr>w_redis = Some \<lparr>rd_client = ref_redis, rd_prefix = [9], rd_server = []\<rparr>, w_rec = None, w_egress = []\<rparr>))
    = (None, w2') \<and> w_egress w2' = []"
proof -
  let ?r = "rt_New (ex_engine 0xFF05 11 8) [] 9001 second"
  let ?c = "\<lparr>rd_client = ref_redis, rd_prefix = [9], rd_server = []\<rparr>"
  let ?w = "\<lparr>w_redis = Some ?c, w_rec = None, w_egress = []\<rparr>"
  let ?c' = "?c\<lparr>rd_server := [(9 # replicate 8 0, str ''1'', second)]\<rparr>"
  let ?w' = "?w\<lparr>w_redis := Some ?c'\<rparr>"
  have sub: "sub (replicate 60 0) 48 56 = replicate 8 (0 :: byte)" "sub (replicate 56 0) 48 56 = replicate 8 (0 :: byte)"
    by (simp_all add: sub_def)
  have gate: "dedup_gate ?r 0 (replicate 60 0) ?w = (True, ?w')"
    by (simp add: dedup_gate_redis redis_SetNX_def ref_redis_def ref_view_def sub rt_New_def)
  have "\<exists>w2'. Retransmit ex_frame ex_shard ?r 5 (\<lambda>_. None) [0] (replicate 56 0) [] ?w' = (None, w2')
      \<and> w_egress w2' = w_egress ?w'"
    by (rule dedup_claims_seqnum [where db = ref_view and ?rc1.0 = ?c and ?rc2.0 = ?c' and ?r1.0 = ?r
          and ?t1.0 = 0 and ?w1.0 = ?w and ?w1'.0 = ?w' and ?rc1'.0 = ?c' and ?raw1.0 = "replicate 60 0"])
      (simp_all add: ref_redis_laws ttl_ok_def rt_New_def sub gate [unfolded rt_New_def])
  then show ?thesis by (simp add: gate)
qed

text \<open>Dedup markers and cached frames never meet: even when both live in one Redis under one
  prefix, passing the gate changes what no 16-byte frame key holds.\<close>

lemma dedup_preserves_frames:
  assumes "redis_laws db (rd_client rc)" "ttl_ok (rt_dedupWindow r)" "w_redis w = Some rc"
    and "length key = 16" "t \<le> t'"
  shows "\<exists>rc'. w_redis (snd (dedup_gate r t raw w)) = Some rc' \<and> redis_view db rc' t' key = redis_view db rc t' key"
proof (cases "56 \<le> length raw")
  case True
  have "rd_prefix rc @ key \<noteq> rd_prefix rc @ sub raw 48 56"
    using assms(4) True by (auto dest: arg_cong [where f = length])
  then show ?thesis
    using setnx_other_keys [of db "rd_client rc"] assms True
    by (auto simp: dedup_gate_redis redis_SetNX_eq redis_view_def redis_laws_def Let_def case_prod_beta)
next
  case False
  then show ?thesis using assms(3) by (simp add: dedup_gate_def buildDedupKey_def)
qed

text \<open>C33: When \<open>SET NX\<close> fails with an error the frame is not sent at all: the call reports success and
  counts the frame as deduplicated, although no instance has claimed it.\<close>

theorem dedup_error_drops_frame:
  assumes "w_redis w = Some rc" "56 \<le> length raw"
    and "redis_SetNX t (sub raw 48 56) (str ''1'') (rt_dedupWindow r) rc = ((False, Some e), rc')"
  shows "Retransmit fp sp r t wr ord raw txID w
    = (None, w\<lparr>w_redis := Some rc', w_rec := on_rec rec_RetransmitDedup (w_rec w)\<rparr>)"
  using assms by (simp add: Retransmit_def dedup_gate_redis)

theorem dedup_error_drops_frame_witness:
  "Retransmit ex_frame ex_shard (rt_New (ex_engine 0xFF05 11 8) [] 9001 second) 0 (\<lambda>_. None) [0]
     (replicate 56 0) []
     \<lparr>w_redis = Some \<lparr>rd_client = ref_redis\<lparr>rc_SetNX := \<lambda>_ _ _ _ s. ((False, Some (Err ''io'')), s)\<rparr>,
        rd_prefix = [9], rd_server = []\<rparr>, w_rec = None, w_egress = []\<rparr>
   = (None, \<lparr>w_redis = Some \<lparr>rd_client = ref_redis\<lparr>rc_SetNX := \<lambda>_ _ _ _ s. ((False, Some (Err ''io'')), s)\<rparr>,
        rd_prefix = [9], rd_server = []\<rparr>, w_rec = None, w_egress = []\<rparr>)"
  using dedup_error_drops_frame [of "\<lparr>w_redis = Some \<lparr>rd_client = ref_redis\<lparr>rc_SetNX := \<lambda>_ _ _ _ s. ((False, Some (Err ''io'')), s)\<rparr>,
        rd_prefix = [9], rd_server = []\<rparr>, w_rec = None, w_egress = []\<rparr>" _ "replicate 56 0" 0
        "rt_New (ex_engine 0xFF05 11 8) [] 9001 second" "Err ''io''"]
  by (simp add: redis_SetNX_def)

text \<open>Descriptors are not leaked: when \<open>Open\<close> succeeds on interfaces with distinct names, exactly
  one connection per interface is open beyond those before it, and \<open>Close\<close> then closes them all,
  whatever the individual close calls return.\<close>

lemma open_close_no_leak:
  assumes "rt_Open env (rt_New eng ifs port win) fds = (None, r', fds')" "distinct (map if_Name ifs)"
  shows "map fst (rt_sockets r') = map if_Name ifs
    \<and> mset fds' = mset (map snd (rt_sockets r')) + mset fds
    \<and> mset (snd (rt_Close cl r' fds')) = mset fds"
proof -
  from assms obtain new where new: "rt_sockets r' = new" "map fst new = map if_Name ifs"
    "mset fds' = mset (map snd new) + mset fds"
    using open_loop_fds [of env ifs "[]" fds "rt_sockets r'" fds']
    by (auto simp: rt_Open_def rt_New_def split: prod.splits)
  then show ?thesis using close_loop_fds [of new fds' cl None] by (simp add: rt_Close_def)
qed

end
