(* ===== verification/Memory_Cache.thy ===== *)
theory Memory_Cache
  imports Cache_Iface
begin

text \<open>
  The in-memory backend, \<open>src/cache/memory/memory.go\<close>.  The mutex makes every method atomic, so
  each method is one function on the state; the background sweeper is the function
  \<open>mem_sweepExpired\<close>, called at the ticks of the garbage-collection goroutine (\<open>mem_gc\<close>).

  The stored value is polymorphic: \<open>Store\<close> keeps the slice it is given without copying it, so
  the composed model instantiates \<open>'v\<close> with slices into a heap (theory \<open>Ingress\<close>).

  Theorems: the size bound, that sweeping cannot be observed, that without a bound the cache is
  exactly a map with expiry, what an eviction may remove, and the interface contract.
\<close>

section \<open>State and operations\<close>

record 'v entry =
  e_value :: 'v
  e_expires :: time

record 'v memcache =
  m_data :: "(bytes \<times> 'v entry) list"
  m_maxKeys :: int
  m_gcRunning :: bool

text \<open>\<open>New\<close> starts the sweeper goroutine (\<open>startGC\<close>).\<close>

definition mem_New :: "int \<Rightarrow> 'v memcache" where
  "mem_New maxKeys = \<lparr>m_data = [], m_maxKeys = maxKeys, m_gcRunning = True\<rparr>"

text \<open>\<open>r\<close> is the runtime's choice of the first key of \<open>range c.data\<close>.\<close>

definition mem_Store :: "nat \<Rightarrow> time \<Rightarrow> bytes \<Rightarrow> 'v \<Rightarrow> duration \<Rightarrow> 'v memcache \<Rightarrow> err option \<times> 'v memcache" where
  "mem_Store r now key v ttl c =
     (let d = (if m_maxKeys c > 0 \<and> int (length (m_data c)) \<ge> m_maxKeys c
               then AList.delete (range_first r (m_data c)) (m_data c)
               else m_data c)
      in (None, c\<lparr>m_data := AList.update key \<lparr>e_value = v, e_expires = now + ttl\<rparr> d\<rparr>))"

definition mem_Retrieve :: "time \<Rightarrow> bytes \<Rightarrow> 'v memcache \<Rightarrow> (err + 'v option) \<times> 'v memcache" where
  "mem_Retrieve now key c =
     (case map_of (m_data c) key of
        None \<Rightarrow> (Inr None, c)
      | Some e \<Rightarrow> if now > e_expires e then (Inr None, c) else (Inr (Some (e_value e)), c))"

definition mem_Delete :: "time \<Rightarrow> bytes \<Rightarrow> 'v memcache \<Rightarrow> err option \<times> 'v memcache" where
  "mem_Delete now key c = (None, c\<lparr>m_data := AList.delete key (m_data c)\<rparr>)"

definition mem_Len :: "'v memcache \<Rightarrow> int" where
  "mem_Len c = int (length (m_data c))"

text \<open>The loop of \<open>sweepExpired\<close>: it deletes from the map it ranges over.\<close>

fun sweep_loop :: "time \<Rightarrow> (bytes \<times> 'v entry) list \<Rightarrow> (bytes \<times> 'v entry) list \<Rightarrow> (bytes \<times> 'v entry) list" where
  "sweep_loop now [] d = d"
| "sweep_loop now ((k, e) # rest) d =
     sweep_loop now rest (if now > e_expires e then AList.delete k d else d)"

definition mem_sweepExpired :: "time \<Rightarrow> 'v memcache \<Rightarrow> 'v memcache" where
  "mem_sweepExpired now c = c\<lparr>m_data := sweep_loop now (m_data c) (m_data c)\<rparr>"

text \<open>
  \<open>startGC\<close>'s goroutine: one iteration of its \<open>select\<close>, on a tick of the 30 s ticker or on the
  stop message.
\<close>

datatype gc_event = GCTick time | GCStop

fun mem_gc :: "gc_event \<Rightarrow> 'v memcache \<Rightarrow> 'v memcache" where
  "mem_gc (GCTick now) c = (if m_gcRunning c then mem_sweepExpired now c else c)"
| "mem_gc GCStop c = c\<lparr>m_gcRunning := False\<rparr>"

text \<open>
  \<open>Close\<close> sends on the unbuffered \<open>stopGC\<close>: it returns when the goroutine receives, and blocks for
  ever (\<open>None\<close>) when there is no goroutine any more.
\<close>

definition mem_Close :: "'v memcache \<Rightarrow> (err option \<times> 'v memcache) option" where
  "mem_Close c = (if m_gcRunning c then Some (None, mem_gc GCStop c) else None)"

section \<open>Invariant\<close>

definition mem_inv :: "'v memcache \<Rightarrow> bool" where
  "mem_inv c \<longleftrightarrow> wf_map (m_data c) \<and> (m_maxKeys c > 0 \<longrightarrow> int (length (m_data c)) \<le> m_maxKeys c)"

definition mem_view :: "'v memcache \<Rightarrow> time \<Rightarrow> bytes \<Rightarrow> 'v option" where
  "mem_view c t k = (case map_of (m_data c) k of
     None \<Rightarrow> None
   | Some e \<Rightarrow> if t > e_expires e then None else Some (e_value e))"

lemma mem_inv_New: "mem_inv (mem_New n)"
  by (simp add: mem_inv_def mem_New_def)

lemma mem_Retrieve_view: "mem_Retrieve t k c = (Inr (mem_view c t k), c)"
  by (simp add: mem_Retrieve_def mem_view_def split: option.splits)

text \<open>The map \<open>Store\<close> writes the new entry into, after the eviction.\<close>

definition evict :: "nat \<Rightarrow> 'v memcache \<Rightarrow> (bytes \<times> 'v entry) list" where
  "evict r c = (if m_maxKeys c > 0 \<and> int (length (m_data c)) \<ge> m_maxKeys c
     then AList.delete (range_first r (m_data c)) (m_data c) else m_data c)"

lemma mem_Store_evict:
  "mem_Store r now k v ttl c =
    (None, c\<lparr>m_data := AList.update k \<lparr>e_value = v, e_expires = now + ttl\<rparr> (evict r c)\<rparr>)"
  by (simp add: mem_Store_def evict_def Let_def)

lemma evict_lookup:
  "map_of (evict r c) k = Some e \<Longrightarrow> map_of (m_data c) k = Some e"
  by (auto simp: evict_def split: if_splits)

lemma wf_evict: "wf_map (m_data c) \<Longrightarrow> wf_map (evict r c)"
  by (simp add: evict_def)

lemma length_evict:
  assumes "mem_inv c" "m_maxKeys c > 0"
  shows "int (length (evict r c)) < m_maxKeys c"
proof (cases "int (length (m_data c)) \<ge> m_maxKeys c")
  case True
  then have ne: "m_data c \<noteq> []" using assms(2) by auto
  then have "0 < length (m_data c)" by simp
  then show ?thesis
    using True assms range_first_in [OF ne, of r]
    by (simp add: evict_def mem_inv_def length_delete_map)
qed (simp add: evict_def)

lemma mem_inv_Store: "mem_inv c \<Longrightarrow> mem_inv (snd (mem_Store r t k v ttl c))"
  using length_evict [of c r] wf_evict [of c r]
  by (auto simp: mem_Store_evict mem_inv_def length_update_map)

lemma mem_inv_Delete: "mem_inv c \<Longrightarrow> mem_inv (snd (mem_Delete t k c))"
  by (auto simp: mem_Delete_def mem_inv_def length_delete_map)

section \<open>The sweeper\<close>

text \<open>The loop that deletes while it ranges is a filter.\<close>

lemma sweep_loop_delete:
  assumes "wf_map (xs @ ys)"
  shows "sweep_loop now ys (filter (\<lambda>(k, e). \<not> now > e_expires e) xs @ ys)
    = filter (\<lambda>(k, e). \<not> now > e_expires e) (xs @ ys)"
  using assms
proof (induction ys arbitrary: xs)
  case (Cons x ys)
  obtain k e where x: "x = (k, e)" by (cases x)
  let ?P = "\<lambda>(k, e). \<not> now > e_expires e"
  have "k \<notin> fst ` set xs" "k \<notin> fst ` set ys"
    using Cons.prems x by auto
  then have "k \<notin> fst ` set (filter ?P xs @ ys)" by auto
  then have "AList.delete k (filter ?P xs @ ys) = filter ?P xs @ ys"
    by (rule delete_id)
  moreover have "AList.delete k (filter ?P xs @ (k, e) # ys) = AList.delete k (filter ?P xs @ ys)"
    by (simp add: AList.delete_eq)
  ultimately have del: "AList.delete k (filter ?P xs @ (k, e) # ys) = filter ?P xs @ ys"
    by simp
  have IH: "sweep_loop now ys (filter ?P (xs @ [x]) @ ys) = filter ?P ((xs @ [x]) @ ys)"
    using Cons.IH [of "xs @ [x]"] Cons.prems by simp
  show ?case
    using IH del by (cases "now > e_expires e") (simp_all add: x)
qed simp

lemma sweep_filter:
  "wf_map (m_data c) \<Longrightarrow> m_data (mem_sweepExpired now c) = filter (\<lambda>(k, e). \<not> now > e_expires e) (m_data c)"
  using sweep_loop_delete [of "[]" "m_data c" now] by (simp add: mem_sweepExpired_def)

lemma mem_inv_sweep: "mem_inv c \<Longrightarrow> mem_inv (mem_sweepExpired now c)"
proof -
  assume inv: "mem_inv c"
  have "length (m_data (mem_sweepExpired now c)) \<le> length (m_data c)"
    using inv by (simp add: sweep_filter mem_inv_def)
  moreover have "m_maxKeys (mem_sweepExpired now c) = m_maxKeys c"
    by (simp add: mem_sweepExpired_def)
  moreover have "wf_map (m_data (mem_sweepExpired now c))"
    using inv by (simp add: sweep_filter mem_inv_def)
  ultimately show ?thesis using inv unfolding mem_inv_def by linarith
qed

lemma mem_view_sweep:
  assumes "mem_inv c" "now \<le> t"
  shows "mem_view (mem_sweepExpired now c) t k = mem_view c t k"
  using assms by (auto simp: mem_view_def mem_inv_def sweep_filter map_of_filter_wf split: option.splits)

section \<open>The backend keeps the contract of the interface\<close>

lemma mem_view_Store_key:
  "mem_view (snd (mem_Store r t k v ttl c)) t' k = (if t' > t + ttl then None else Some v)"
  by (simp add: mem_Store_evict mem_view_def)

lemma mem_view_Store_other:
  "k' \<noteq> k \<Longrightarrow> mem_view (snd (mem_Store r t k v ttl c)) t' k' = Some w \<Longrightarrow> mem_view c t' k' = Some w"
  by (auto simp: mem_Store_evict mem_view_def evict_lookup split: option.splits if_splits
      dest: evict_lookup)

lemma mem_view_Delete:
  "mem_view (snd (mem_Delete t k c)) t' k' = (if k' = k then None else mem_view c t' k')"
  by (simp add: mem_Delete_def mem_view_def)

lemma mem_Store_fst [simp]: "fst (mem_Store r t k v ttl c) = None"
  by (simp add: mem_Store_evict)

lemma mem_Delete_fst [simp]: "fst (mem_Delete t k c) = None"
  by (simp add: mem_Delete_def)

interpretation mem: frame_cache mem_Store mem_Retrieve mem_Delete mem_view mem_inv
proof unfold_locales
  fix s :: "'v memcache" and r t t' k k' v ttl w s' x
  show "mem_inv s \<Longrightarrow> mem_inv (snd (mem_Store r t k v ttl s))" by (rule mem_inv_Store)
  show "mem_inv s \<Longrightarrow> mem_inv (snd (mem_Retrieve t k s))" by (simp add: mem_Retrieve_view)
  show "mem_inv s \<Longrightarrow> mem_inv (snd (mem_Delete t k s))" by (rule mem_inv_Delete)
  show "mem_Retrieve t k s = (Inr x, s') \<Longrightarrow> x = mem_view s t k" by (auto simp: mem_Retrieve_view)
  show "mem_view (snd (mem_Retrieve t k s)) t' k' = mem_view s t' k'" by (simp add: mem_Retrieve_view)
  show "mem_Store r t k v ttl s = (None, s') \<Longrightarrow> t' < t + ttl \<Longrightarrow> mem_view s' t' k = Some v"
    using mem_view_Store_key [of r t k v ttl s t'] by simp
  show "mem_view (snd (mem_Store r t k v ttl s)) t' k = Some w \<Longrightarrow>
      w = v \<and> t' \<le> t + ttl \<or> fst (mem_Store r t k v ttl s) \<noteq> None \<and> mem_view s t' k = Some w"
    by (auto simp: mem_view_Store_key split: if_splits)
  show "k' \<noteq> k \<Longrightarrow> mem_view (snd (mem_Store r t k v ttl s)) t' k' = Some w \<Longrightarrow> mem_view s t' k' = Some w"
    by (rule mem_view_Store_other)
  show "mem_Delete t k s = (None, s') \<Longrightarrow> mem_view s' t' k = None"
    using mem_view_Delete [of t k s t' k] by simp
  show "mem_view (snd (mem_Delete t k s)) t' k' = Some w \<Longrightarrow> mem_view s t' k' = Some w"
    by (simp add: mem_view_Delete split: if_splits)
  show "k' \<noteq> k \<Longrightarrow> mem_view (snd (mem_Delete t k s)) t' k' = mem_view s t' k'"
    by (simp add: mem_view_Delete)
qed

section \<open>Histories\<close>

text \<open>Any interleaving of calls by the ingress worker and the NACK workers with sweeper ticks.\<close>

datatype 'v mem_call = MCall "'v cache_op" | MTick time

fun call_time :: "'v mem_call \<Rightarrow> time" where
  "call_time (MCall x) = op_time x"
| "call_time (MTick t) = t"

fun mem_step :: "'v mem_call \<Rightarrow> 'v memcache \<Rightarrow> 'v memcache" where
  "mem_step (MCall (CStore r t k v ttl)) c = snd (mem_Store r t k v ttl c)"
| "mem_step (MCall (CRetrieve t k)) c = snd (mem_Retrieve t k c)"
| "mem_step (MCall (CDelete t k)) c = snd (mem_Delete t k c)"
| "mem_step (MTick t) c = mem_gc (GCTick t) c"

fun mem_run :: "'v mem_call list \<Rightarrow> 'v memcache \<Rightarrow> 'v memcache" where
  "mem_run [] c = c"
| "mem_run (x # xs) c = mem_run xs (mem_step x c)"

lemma mem_inv_step: "mem_inv c \<Longrightarrow> mem_inv (mem_step x c)"
  by (cases "(x, c)" rule: mem_step.cases)
    (simp_all add: mem_inv_Store mem_inv_Delete mem_inv_sweep mem_Retrieve_view)

lemma mem_inv_run: "mem_inv c \<Longrightarrow> mem_inv (mem_run xs c)"
  by (induction xs arbitrary: c) (simp_all add: mem_inv_step)

lemma maxKeys_step [simp]: "m_maxKeys (mem_step x c) = m_maxKeys c"
  by (cases "(x, c)" rule: mem_step.cases)
    (simp_all add: mem_Store_evict mem_Delete_def mem_Retrieve_view mem_sweepExpired_def)

lemma maxKeys_run [simp]: "m_maxKeys (mem_run xs c) = m_maxKeys c"
  by (induction xs arbitrary: c) simp_all

text \<open>The specification of an unbounded cache: a map from keys to values with a deadline.\<close>

type_synonym 'v ttl_map = "bytes \<Rightarrow> ('v \<times> time) option"

fun ttl_step :: "'v mem_call \<Rightarrow> 'v ttl_map \<Rightarrow> 'v ttl_map" where
  "ttl_step (MCall (CStore r t k v ttl)) m = m(k \<mapsto> (v, t + ttl))"
| "ttl_step (MCall (CDelete t k)) m = m(k := None)"
| "ttl_step _ m = m"

definition ttl_view :: "'v ttl_map \<Rightarrow> time \<Rightarrow> bytes \<Rightarrow> 'v option" where
  "ttl_view m t k = (case m k of None \<Rightarrow> None | Some (v, d) \<Rightarrow> if d < t then None else Some v)"

lemma ttl_refine_step:
  assumes "mem_inv c" "m_maxKeys c \<le> 0" "call_time x \<le> t"
    and abs: "\<And>k. mem_view c t k = ttl_view m t k"
  shows "mem_view (mem_step x c) t k = ttl_view (ttl_step x m) t k"
proof (cases "(x, c)" rule: mem_step.cases)
  case (1 r s k' v ttl c')
  then show ?thesis
    using abs [of k] assms(2)
    by (auto simp: mem_Store_evict evict_def mem_view_def ttl_view_def split: option.splits if_splits)
next
  case (3 s k' c')
  then show ?thesis using abs by (simp add: mem_view_Delete ttl_view_def)
next
  case (4 s c')
  then show ?thesis using abs assms by (simp add: mem_view_sweep)
qed (simp add: mem_Retrieve_view abs)

lemma ttl_refine_run:
  assumes "mem_inv c" "m_maxKeys c \<le> 0" "\<And>x. x \<in> set xs \<Longrightarrow> call_time x \<le> t"
    and "\<And>k. mem_view c t k = ttl_view m t k"
  shows "mem_view (mem_run xs c) t k = ttl_view (fold ttl_step xs m) t k"
  using assms
proof (induction xs arbitrary: c m)
  case (Cons x xs)
  have "mem_view (mem_step x c) t k = ttl_view (ttl_step x m) t k" for k
    using Cons.prems by (intro ttl_refine_step) auto
  then show ?case using Cons by (simp add: mem_inv_step)
qed simp

text \<open>The values a history may have left under a key.\<close>

fun call_stores :: "bytes \<Rightarrow> time \<Rightarrow> 'v mem_call \<Rightarrow> 'v set" where
  "call_stores k t (MCall x) = op_stores k t x"
| "call_stores k t (MTick _) = {}"

lemma in_op_stores: "w \<in> op_stores k t x \<longleftrightarrow> (\<exists>r s ttl. x = CStore r s k w ttl \<and> t \<le> s + ttl)"
  by (cases x) auto

lemma in_call_stores:
  "w \<in> call_stores k t x \<longleftrightarrow> (\<exists>r s ttl. x = MCall (CStore r s k w ttl) \<and> t \<le> s + ttl)"
  by (cases x) (auto simp: in_op_stores)

lemma mem_view_step:
  assumes "mem_inv c" "call_time x \<le> t" "mem_view (mem_step x c) t k = Some w"
  shows "w \<in> call_stores k t x \<or> mem_view c t k = Some w"
proof (cases "(x, c)" rule: mem_step.cases)
  case (1 r s k' v ttl c')
  then show ?thesis
    using assms(3) mem_view_Store_other [of k k' r s v ttl c t w]
    by (cases "k' = k") (auto simp: mem_view_Store_key split: if_splits)
qed (use assms in \<open>auto simp: mem_Retrieve_view mem_view_Delete mem_view_sweep split: if_splits\<close>)

lemma mem_view_run:
  assumes "mem_inv c" "\<And>x. x \<in> set xs \<Longrightarrow> call_time x \<le> t" "mem_view (mem_run xs c) t k = Some w"
  shows "(\<exists>x \<in> set xs. w \<in> call_stores k t x) \<or> mem_view c t k = Some w"
  using assms
proof (induction xs arbitrary: c)
  case (Cons x xs)
  then have "(\<exists>y \<in> set xs. w \<in> call_stores k t y) \<or> mem_view (mem_step x c) t k = Some w"
    by (simp add: mem_inv_step)
  then show ?case using mem_view_step [of c x t k w] Cons.prems by auto
qed simp

lemma mem_view_New [simp]: "mem_view (mem_New n) t k = None"
  by (simp add: mem_view_def mem_New_def)

section \<open>Properties\<close>

text \<open>C32: With a positive limit the number of stored entries (\<open>Len\<close>, expired ones included) never
  exceeds it, after any interleaving of stores, retrievals, deletions and sweeps.\<close>

theorem mem_size_bound:
  assumes "0 < n"
  shows "mem_Len (mem_run calls (mem_New n)) \<le> n"
proof -
  have "mem_inv (mem_run calls (mem_New n))" by (simp add: mem_inv_run mem_inv_New)
  then show ?thesis using assms by (simp add: mem_inv_def mem_Len_def mem_New_def)
qed

theorem mem_size_bound_witness:
  "mem_Len (mem_run [MCall (CStore 0 0 [1] (7::nat) 5), MCall (CStore 0 1 [2] 8 5)] (mem_New 1)) \<le> 1"
  by (rule mem_size_bound) simp

text \<open>C6: Without a limit the cache is exactly a map with deadlines: after any interleaving of calls
  and sweeps, \<open>Retrieve\<close> at any later time returns what the abstract map holds, nothing when the
  deadline has passed.\<close>

theorem mem_refines_ttl_map:
  assumes "n \<le> 0" and "\<And>x. x \<in> set calls \<Longrightarrow> call_time x \<le> t"
  shows "fst (mem_Retrieve t k (mem_run calls (mem_New n)))
    = Inr (ttl_view (fold ttl_step calls Map.empty) t k)"
proof -
  have "mem_view (mem_run calls (mem_New n)) t k = ttl_view (fold ttl_step calls Map.empty) t k"
    using assms
    by (intro ttl_refine_run mem_inv_New) (simp_all add: mem_New_def mem_view_def ttl_view_def)
  then show ?thesis by (simp add: mem_Retrieve_view)
qed

theorem mem_refines_ttl_map_witness:
  "fst (mem_Retrieve 8 [1] (mem_run [MCall (CStore 0 0 [1] (7::nat) 5), MTick 6] (mem_New 0)))
    = Inr (ttl_view (fold ttl_step [MCall (CStore 0 0 [1] 7 5), MTick 6] Map.empty) 8 [1])"
  by (rule mem_refines_ttl_map) auto

text \<open>Nothing is ever served under a key it was not stored under, nor after its time-to-live: a
  value that \<open>Retrieve\<close> returns was stored under that very key by a call of the history and has not
  expired.\<close>

lemma mem_no_phantom:
  assumes "\<And>x. x \<in> set calls \<Longrightarrow> call_time x \<le> t"
    and "fst (mem_Retrieve t k (mem_run calls (mem_New n))) = Inr (Some w)"
  shows "\<exists>r s ttl. MCall (CStore r s k w ttl) \<in> set calls \<and> t \<le> s + ttl"
proof -
  have "mem_view (mem_run calls (mem_New n)) t k = Some w"
    using assms(2) by (simp add: mem_Retrieve_view)
  with assms(1) have "\<exists>x \<in> set calls. w \<in> call_stores k t x"
    using mem_view_run [of "mem_New n" calls t k w] by (simp add: mem_inv_New)
  then show ?thesis by (auto simp: in_call_stores)
qed

end
