(* ===== verification/Cache_Ops.thy ===== *)
theory Cache_Ops
  imports Memory_Cache Redis_Cache
begin

text \<open>
  The cache as its two clients hold it: an interface value, that is a record of the methods of the
  backend \<open>main\<close> chose.  The ingress worker passes a slice of its receive buffer to \<open>Store\<close>; the Redis
  client sends the bytes the slice has at that moment, the in-memory backend keeps the slice.  What
  the NACK server gets from \<open>Retrieve\<close> are the bytes the returned slice has when it reads it.
\<close>

record 'c cache_ops =
  co_Store :: "nat \<Rightarrow> time \<Rightarrow> heap \<Rightarrow> bytes \<Rightarrow> slice \<Rightarrow> duration \<Rightarrow> 'c \<Rightarrow> err option \<times> 'c"
  co_Retrieve :: "time \<Rightarrow> heap \<Rightarrow> bytes \<Rightarrow> 'c \<Rightarrow> (err + bytes option) \<times> 'c"

definition mem_ops :: "slice memcache cache_ops" where
  "mem_ops = \<lparr>
     co_Store = \<lambda>r now h k v ttl c. mem_Store r now k v ttl c,
     co_Retrieve = \<lambda>now h k c. (case mem_Retrieve now k c of
        (Inl e, c') \<Rightarrow> (Inl e, c')
      | (Inr x, c') \<Rightarrow> (Inr (map_option (deref h) x), c'))\<rparr>"

definition redis_ops :: "'s rediscache cache_ops" where
  "redis_ops = \<lparr>
     co_Store = \<lambda>r now h k v ttl c. redis_Store r now k (deref h v) ttl c,
     co_Retrieve = \<lambda>now h k c. redis_Retrieve now k c\<rparr>"

text \<open>The 16-byte key \<open>HashKey || SeqNum\<close>, built by the ingress worker and by the NACK server.\<close>

definition frame_key :: "u64 \<Rightarrow> u64 \<Rightarrow> bytes" where
  "frame_key hashKey seqNum = PutUint64 (PutUint64 (replicate 16 0) 0 hashKey) 8 seqNum"

lemma frame_key_eq: "frame_key h s = be64 h @ be64 s"
  by (simp add: frame_key_def PutUint64_def put_at_def)

lemma length_frame_key [simp]: "length (frame_key h s) = 16"
  by (simp add: frame_key_eq)

lemma frame_key_inject [simp]: "frame_key h s = frame_key h' s' \<longleftrightarrow> h = h' \<and> s = s'"
  by (simp add: frame_key_eq append_eq_append_conv)

lemma mem_ops_Retrieve:
  "co_Retrieve mem_ops t h k c = (Inr (map_option (deref h) (mem_view c t k)), c)"
  by (simp add: mem_ops_def mem_Retrieve_view)

lemma mem_ops_Store: "co_Store mem_ops r t h k v ttl c = mem_Store r t k v ttl c"
  by (simp add: mem_ops_def)

end
