(* ===== verification/Ingress.thy ===== *)
theory Ingress
  imports Deps Metrics Cache_Ops
begin

text \<open>
  The multicast receive worker, \<open>src/ingress/ingress.go\<close>: decoding by frame version, the cache key,
  storing, and the receive loop with its single reused buffer.  The frame decoder is a parameter
  (\<open>Deps\<close>), the cache an interface value (\<open>Cache_Ops\<close>).  The results of the system calls are the
  inputs of the loop.
\<close>

section \<open>State\<close>

record worker =
  wk_iface :: iface
  wk_port :: int
  wk_groups :: "udp_addr list"
  wk_ttl :: duration

definition worker_New :: "iface \<Rightarrow> int \<Rightarrow> udp_addr list \<Rightarrow> duration \<Rightarrow> worker" where
  "worker_New ifc port groups ttl = \<lparr>wk_iface = ifc, wk_port = port, wk_groups = groups, wk_ttl = ttl\<rparr>"

record 'c in_world =
  iw_cache :: 'c
  iw_rec :: "recorder option"

section \<open>Processing a frame\<close>

text \<open>The part all frame kinds have in common, from a decoded frame on.\<close>

definition cache_decoded :: "'c cache_ops \<Rightarrow> worker \<Rightarrow> heap \<Rightarrow> nat \<Rightarrow> time \<Rightarrow> slice \<Rightarrow> decoded \<Rightarrow> 'c in_world \<Rightarrow> 'c in_world" where
  "cache_decoded ops wk h r now raw f w0 =
     (let w = w0\<lparr>iw_rec := on_rec rec_FrameReceived (iw_rec w0)\<rparr>
      in if d_SeqNum f = 0 then w
         else let key = frame_key (d_HashKey f) (d_SeqNum f);
                  (e, c') = co_Store ops r now h key raw (wk_ttl wk) (iw_cache w);
                  w' = w\<lparr>iw_cache := c'\<rparr>
              in if e \<noteq> None then w'\<lparr>iw_rec := on_rec rec_CacheError (iw_rec w')\<rparr>
                 else w'\<lparr>iw_rec := on_rec rec_FrameCached (iw_rec w')\<rparr>)"

definition drop_undecodable :: "'c in_world \<Rightarrow> 'c in_world" where
  "drop_undecodable w = w\<lparr>iw_rec := on_rec (rec_FrameDropped (str ''decode_error'')) (iw_rec w)\<rparr>"

definition processBlockFrame :: "frame_pkg \<Rightarrow> 'c cache_ops \<Rightarrow> worker \<Rightarrow> heap \<Rightarrow> nat \<Rightarrow> time \<Rightarrow> slice \<Rightarrow> 'c in_world \<Rightarrow> 'c in_world" where
  "processBlockFrame fp ops wk h r now raw w =
     (case fp_DecodeBlock fp (deref h raw) of
        Inl e \<Rightarrow> drop_undecodable w
      | Inr bf \<Rightarrow> cache_decoded ops wk h r now raw bf w)"

definition processSubtreeDataFrame :: "frame_pkg \<Rightarrow> 'c cache_ops \<Rightarrow> worker \<Rightarrow> heap \<Rightarrow> nat \<Rightarrow> time \<Rightarrow> slice \<Rightarrow> 'c in_world \<Rightarrow> 'c in_world" where
  "processSubtreeDataFrame fp ops wk h r now raw w =
     (case fp_DecodeSubtreeData fp (deref h raw) of
        Inl e \<Rightarrow> drop_undecodable w
      | Inr sf \<Rightarrow> cache_decoded ops wk h r now raw sf w)"

definition processAnchorFrame :: "frame_pkg \<Rightarrow> 'c cache_ops \<Rightarrow> worker \<Rightarrow> heap \<Rightarrow> nat \<Rightarrow> time \<Rightarrow> slice \<Rightarrow> 'c in_world \<Rightarrow> 'c in_world" where
  "processAnchorFrame fp ops wk h r now raw w =
     (case fp_DecodeAnchor fp (deref h raw) of
        Inl e \<Rightarrow> drop_undecodable w
      | Inr af \<Rightarrow> cache_decoded ops wk h r now raw af w)"

definition processFrame :: "frame_pkg \<Rightarrow> 'c cache_ops \<Rightarrow> worker \<Rightarrow> heap \<Rightarrow> nat \<Rightarrow> time \<Rightarrow> slice \<Rightarrow> 'c in_world \<Rightarrow> 'c in_world" where
  "processFrame fp ops wk h r now raw w =
     (if fp_IsBlockFrame fp (deref h raw) then processBlockFrame fp ops wk h r now raw w
      else if fp_IsSubtreeDataFrame fp (deref h raw) then processSubtreeDataFrame fp ops wk h r now raw w
      else if fp_IsAnchorFrame fp (deref h raw) then processAnchorFrame fp ops wk h r now raw w
      else case fp_Decode fp (deref h raw) of
          Inl e \<Rightarrow> drop_undecodable w
        | Inr f \<Rightarrow> cache_decoded ops wk h r now raw f w)"

section \<open>The receive loop\<close>

definition recvBufSize :: nat where
  "recvBufSize = 4 * 1024 * 1024"

text \<open>
  One return of \<open>Recvfrom\<close>, with whether the context is cancelled then, the clock and the runtime's
  map choice.
\<close>

datatype recv = RData bytes | REAGAIN | REBADF | REINVAL | REINTR | ROther

record recv_event =
  re_recv :: recv
  re_ctxDone :: bool
  re_now :: time
  re_choice :: nat

text \<open>
  One iteration: the returned flag says whether \<open>Run\<close> returns.  The receive buffer is the array \<open>a\<close>
  of the heap; a datagram is written to its front, the rest of it keeps its old contents.
\<close>

definition recv_step :: "frame_pkg \<Rightarrow> 'c cache_ops \<Rightarrow> worker \<Rightarrow> nat \<Rightarrow> recv_event \<Rightarrow> heap \<times> 'c in_world
    \<Rightarrow> bool \<times> heap \<times> 'c in_world" where
  "recv_step fp ops wk a ev st =
     (case st of (h, w) \<Rightarrow>
        (case re_recv ev of
           REAGAIN \<Rightarrow> (re_ctxDone ev, h, w)
         | REBADF \<Rightarrow> (True, h, w)
         | REINVAL \<Rightarrow> (True, h, w)
         | REINTR \<Rightarrow> (False, h, w)
         | ROther \<Rightarrow> (re_ctxDone ev, h, w)
         | RData d \<Rightarrow>
             let got = take recvBufSize d;
                 n = length got;
                 h' = h(a := put_at (h a) 0 got)
             in if n > 0
                then (False, h', processFrame fp ops wk h' (re_choice ev) (re_now ev)
                                    \<lparr>sl_arr = a, sl_off = 0, sl_len = n\<rparr> w)
                else (False, h', w)))"

text \<open>Whether a result of \<open>Recvfrom\<close> ends the loop, given whether the context is cancelled.\<close>

fun recv_returns :: "recv \<Rightarrow> bool \<Rightarrow> bool" where
  "recv_returns REAGAIN ctxDone = ctxDone"
| "recv_returns REBADF ctxDone = True"
| "recv_returns REINVAL ctxDone = True"
| "recv_returns REINTR ctxDone = False"
| "recv_returns ROther ctxDone = ctxDone"
| "recv_returns (RData d) ctxDone = False"

lemma recv_step_returns: "fst (recv_step fp ops wk a ev st) = recv_returns (re_recv ev) (re_ctxDone ev)"
  by (auto simp: recv_step_def Let_def split: prod.split recv.split)

text \<open>The loop over the events so far: whether it has returned, and the state.\<close>

fun recv_loop :: "frame_pkg \<Rightarrow> 'c cache_ops \<Rightarrow> worker \<Rightarrow> nat \<Rightarrow> recv_event list \<Rightarrow> heap \<times> 'c in_world
    \<Rightarrow> bool \<times> heap \<times> 'c in_world" where
  "recv_loop fp ops wk a [] st = (False, st)"
| "recv_loop fp ops wk a (ev # evs) st =
     (case recv_step fp ops wk a ev st of
        (True, st') \<Rightarrow> (True, st')
      | (False, st') \<Rightarrow> recv_loop fp ops wk a evs st')"

section \<open>Setting up the socket\<close>

text \<open>The system calls of \<open>openRawSocket\<close> and of the group joins.\<close>

record raw_env =
  ra_socket :: "err + nat"
  ra_reuseport :: "err option"
  ra_bind :: "int \<Rightarrow> err option"
  ra_join :: "u32 \<Rightarrow> udp_addr \<Rightarrow> err option"

definition openRawSocket :: "raw_env \<Rightarrow> worker \<Rightarrow> nat list \<Rightarrow> (err + nat) \<times> nat list" where
  "openRawSocket env wk fds =
     (case ra_socket env of
        Inl e \<Rightarrow> (Inl (Err ''socket''), fds)
      | Inr fd \<Rightarrow>
          let fds1 = fd # fds
          in (case ra_reuseport env of
                Some e \<Rightarrow> (Inl (Err ''SO_REUSEPORT''), remove1 fd fds1)
              | None \<Rightarrow> (case ra_bind env (wk_port wk) of
                    Some e \<Rightarrow> (Inl (Err ''bind''), remove1 fd fds1)
                  | None \<Rightarrow> (Inr fd, fds1))))"

text \<open>Every group is joined on the worker's interface, its index converted to 32 bits.\<close>

fun join_loop :: "raw_env \<Rightarrow> iface \<Rightarrow> udp_addr list \<Rightarrow> nat \<Rightarrow> nat list \<Rightarrow> err option \<times> nat list" where
  "join_loop env ifc [] fd fds = (None, fds)"
| "join_loop env ifc (g # gs) fd fds =
     (case ra_join env (word_of_int (if_Index ifc)) g of
        Some e \<Rightarrow> (Some (Err ''join group''), remove1 fd fds)
      | None \<Rightarrow> join_loop env ifc gs fd fds)"

text \<open>
  \<open>Run\<close> up to the events given: the error of the set-up, or the state of the loop.  \<open>WorkerDone\<close> is
  deferred, so it runs when the loop has returned.
\<close>

definition ingress_Run :: "frame_pkg \<Rightarrow> 'c cache_ops \<Rightarrow> raw_env \<Rightarrow> worker \<Rightarrow> nat \<Rightarrow> recv_event list
    \<Rightarrow> nat list \<Rightarrow> heap \<times> 'c in_world \<Rightarrow> (err + bool) \<times> nat list \<times> heap \<times> 'c in_world" where
  "ingress_Run fp ops env wk a evs fds st =
     (case openRawSocket env wk fds of
        (Inl e, fds1) \<Rightarrow> (Inl (Err ''ingress: open socket''), fds1, st)
      | (Inr fd, fds1) \<Rightarrow>
          (case join_loop env (wk_iface wk) (wk_groups wk) fd fds1 of
             (Some e, fds2) \<Rightarrow> (Inl (Err ''ingress: join group''), fds2, st)
           | (None, fds2) \<Rightarrow>
               (case st of (h, w) \<Rightarrow>
                  let h1 = h(a := replicate recvBufSize 0);
                      w1 = w\<lparr>iw_rec := on_rec rec_WorkerReady (iw_rec w)\<rparr>
                  in (case recv_loop fp ops wk a evs (h1, w1) of
                        (True, h2, w2) \<Rightarrow> (Inr True, fds2, h2, w2\<lparr>iw_rec := on_rec rec_WorkerDone (iw_rec w2)\<rparr>)
                      | (False, h2, w2) \<Rightarrow> (Inr False, fds2, h2, w2)))))"

section \<open>Lemmas\<close>

text \<open>Which decoder a frame goes through.\<close>

definition decode_any :: "frame_pkg \<Rightarrow> bytes \<Rightarrow> err + decoded" where
  "decode_any fp raw =
     (if fp_IsBlockFrame fp raw then fp_DecodeBlock fp raw
      else if fp_IsSubtreeDataFrame fp raw then fp_DecodeSubtreeData fp raw
      else if fp_IsAnchorFrame fp raw then fp_DecodeAnchor fp raw
      else fp_Decode fp raw)"

lemma processFrame_decode_any:
  "processFrame fp ops wk h r now raw w =
    (case decode_any fp (deref h raw) of
       Inl e \<Rightarrow> drop_undecodable w
     | Inr f \<Rightarrow> cache_decoded ops wk h r now raw f w)"
  by (simp add: processFrame_def processBlockFrame_def processSubtreeDataFrame_def
      processAnchorFrame_def decode_any_def)

lemma recv_step_data:
  assumes "d \<noteq> []" "length d \<le> recvBufSize" "re_recv ev = RData d"
  shows "recv_step fp ops wk a ev (h, w) =
    (let h' = h(a := put_at (h a) 0 d)
     in (False, h', processFrame fp ops wk h' (re_choice ev) (re_now ev)
           \<lparr>sl_arr = a, sl_off = 0, sl_len = length d\<rparr> w))"
  using assms by (simp add: recv_step_def Let_def)

lemma take_put_at_front: "take (length d) (put_at b 0 d) = d"
  by (simp add: put_at_def)

lemma openRawSocket_fds:
  "openRawSocket env wk fds = (res, fds') \<Longrightarrow>
    (case res of Inl e \<Rightarrow> fds' = fds | Inr fd \<Rightarrow> fds' = fd # fds)"
  by (auto simp: openRawSocket_def Let_def split: sum.splits option.splits)

lemma join_loop_fds:
  "join_loop env ifc gs fd fds = (e, fds') \<Longrightarrow> (case e of Some _ \<Rightarrow> fds' = remove1 fd fds | None \<Rightarrow> fds' = fds)"
  by (induction gs) (auto split: option.splits)

text \<open>Every value the in-memory backend got from the worker is a prefix of its receive buffer.\<close>

definition buf_slices :: "nat \<Rightarrow> slice memcache \<Rightarrow> bool" where
  "buf_slices a c \<longleftrightarrow> (\<forall>k e. map_of (m_data c) k = Some e \<longrightarrow> sl_arr (e_value e) = a \<and> sl_off (e_value e) = 0)"

lemma buf_slices_Store:
  "buf_slices a c \<Longrightarrow> buf_slices a (snd (mem_Store r t k \<lparr>sl_arr = a, sl_off = 0, sl_len = n\<rparr> ttl c))"
  by (auto simp: buf_slices_def mem_Store_evict split: if_splits dest: evict_lookup)

lemma buf_slices_processFrame:
  assumes "buf_slices a (iw_cache w)"
  shows "buf_slices a (iw_cache (processFrame fp mem_ops wk h r now \<lparr>sl_arr = a, sl_off = 0, sl_len = n\<rparr> w))"
  using buf_slices_Store [OF assms]
  by (auto simp: processFrame_decode_any drop_undecodable_def cache_decoded_def mem_ops_Store assms
      Let_def case_prod_beta split: sum.split)

lemma buf_slices_step:
  assumes "buf_slices a (iw_cache w)" "recv_step fp mem_ops wk a ev (h, w) = (b, h', w')"
  shows "buf_slices a (iw_cache w')"
  using assms by (auto simp: recv_step_def Let_def buf_slices_processFrame split: recv.splits if_splits)

lemma buf_slices_loop:
  assumes "buf_slices a (iw_cache w)" "recv_loop fp mem_ops wk a evs (h, w) = (b, h', w')"
  shows "buf_slices a (iw_cache w')"
  using assms
proof (induction evs arbitrary: h w)
  case (Cons ev evs)
  obtain b1 h1 w1 where st: "recv_step fp mem_ops wk a ev (h, w) = (b1, h1, w1)" by (metis prod.exhaust_sel)
  have "buf_slices a (iw_cache w1)" using buf_slices_step [OF Cons.prems(1) st] .
  then show ?case using Cons st by (cases b1) auto
qed simp

lemma recv_loop_append:
  "recv_loop fp ops wk a (xs @ ys) st =
    (case recv_loop fp ops wk a xs st of
       (True, st') \<Rightarrow> (True, st')
     | (False, st') \<Rightarrow> recv_loop fp ops wk a ys st')"
  by (induction xs arbitrary: st) (auto split: prod.splits bool.splits)

section \<open>Properties\<close>

text \<open>C20: All four frame kinds are cached alike.  A frame its decoder rejects is counted as dropped and
  not stored; an unstamped one (SeqNum 0) is counted as received and not stored; any other is stored
  exactly once, raw, under \<open>HashKey || SeqNum\<close> with the worker's time-to-live, and counted as received
  and then as cached or as a cache error.\<close>

theorem frame_handling:
  assumes "iw_rec w = Some rc"
  shows "let w' = processFrame fp ops wk h r now raw w in
    case decode_any fp (deref h raw) of
      Inl e \<Rightarrow> iw_cache w' = iw_cache w
        \<and> calls_in (iw_rec w') = r_calls rc @ [(FramesDropped, [(str ''reason'', str ''decode_error'')], 1)]
    | Inr f \<Rightarrow>
        if d_SeqNum f = 0
        then iw_cache w' = iw_cache w \<and> calls_in (iw_rec w') = r_calls rc @ [(FramesReceived, [], 1)]
        else let (e, c') = co_Store ops r now h (be64 (d_HashKey f) @ be64 (d_SeqNum f)) raw (wk_ttl wk) (iw_cache w)
             in iw_cache w' = c' \<and> calls_in (iw_rec w') = r_calls rc @
                  [(FramesReceived, [], 1), (if e = None then FramesCached else CacheErrors, [], 1)]"
  using assms
  by (auto simp: processFrame_decode_any drop_undecodable_def cache_decoded_def frame_key_eq
      rec_defs calls_in_def Let_def case_prod_beta split: sum.split)

theorem frame_handling_witness:
  "calls_in (iw_rec (processFrame ex_frame mem_ops (worker_New ex_iface 9001 [] second) (\<lambda>_. [1, 2]) 0 5
      \<lparr>sl_arr = 0, sl_off = 0, sl_len = 2\<rparr> \<lparr>iw_cache = mem_New 0, iw_rec = Some (ex_recorder 1 0)\<rparr>))
    = [(FramesDropped, [(str ''reason'', str ''decode_error'')], 1)]"
  using frame_handling [of "\<lparr>iw_cache = mem_New 0, iw_rec = Some (ex_recorder 1 0)\<rparr>" "ex_recorder 1 0" ex_frame
      mem_ops "worker_New ex_iface 9001 [] second" "\<lambda>_. [1, 2]" 0 5 "\<lparr>sl_arr = 0, sl_off = 0, sl_len = 2\<rparr>"]
  by (simp add: decode_any_def ex_frame_def ex_decode_def ex_recorder_def recorder_init_def Let_def)

text \<open>C34: Transient receive errors are harmless: while the context is not cancelled and the socket is
  valid, the loop does not return and leaves the heap, the cache and the recorder as if only the
  datagrams had arrived.\<close>

theorem transient_errors_ignored:
  assumes "\<And>ev. ev \<in> set evs \<Longrightarrow> \<not> re_ctxDone ev \<and> re_recv ev \<noteq> REBADF \<and> re_recv ev \<noteq> REINVAL"
  shows "recv_loop fp ops wk a evs st
      = recv_loop fp ops wk a (filter (\<lambda>ev. \<exists>d. re_recv ev = RData d) evs) st
    \<and> \<not> fst (recv_loop fp ops wk a evs st)"
  using assms
proof (induction evs arbitrary: st)
  case (Cons ev evs)
  obtain h w where st: "st = (h, w)" by (cases st)
  have ev: "\<not> re_ctxDone ev" "re_recv ev \<noteq> REBADF" "re_recv ev \<noteq> REINVAL" using Cons.prems by auto
  have IH: "recv_loop fp ops wk a evs st = recv_loop fp ops wk a (filter (\<lambda>ev. \<exists>d. re_recv ev = RData d) evs) st
      \<and> \<not> fst (recv_loop fp ops wk a evs st)" for st
    using Cons.prems by (intro Cons.IH) auto
  show ?case
  proof (cases "\<exists>d. re_recv ev = RData d")
    case True
    then have "\<not> fst (recv_step fp ops wk a ev st)" by (auto simp: recv_step_def st Let_def split: if_splits)
    then obtain st' where "recv_step fp ops wk a ev st = (False, st')" by (metis prod.exhaust_sel)
    then show ?thesis using IH [of st', THEN conjunct1] IH [of st', THEN conjunct2] True by simp
  next
    case False
    then have "recv_step fp ops wk a ev st = (False, st)"
      using ev by (cases "re_recv ev") (auto simp: recv_step_def st)
    then show ?thesis using IH [of st, THEN conjunct1] IH [of st, THEN conjunct2] False by simp
  qed
qed simp

theorem transient_errors_ignored_witness:
  "\<not> fst (recv_loop ex_frame mem_ops (worker_New ex_iface 9001 [] second) 0
      [\<lparr>re_recv = REINTR, re_ctxDone = False, re_now = 0, re_choice = 0\<rparr>]
      (\<lambda>_. [], \<lparr>iw_cache = mem_New 0, iw_rec = None\<rparr>))"
  using transient_errors_ignored [of "[\<lparr>re_recv = REINTR, re_ctxDone = False, re_now = 0, re_choice = 0\<rparr>]"]
  by (simp add: recv_step_def)

text \<open>C18: With the in-memory backend the frames in the cache all share the worker's receive buffer:
  after any run of the receive loop whose last datagram is \<open>d\<close>, whatever key is looked up, the bytes
  served are a prefix of that last datagram followed by what it left of the buffer, not the frame that
  was stored under the key.\<close>

theorem memory_cache_serves_receive_buffer:
  assumes "recv_loop fp mem_ops wk a (evs @ [ev]) (h, \<lparr>iw_cache = mem_New n, iw_rec = rc\<rparr>) = (False, h', w')"
    and "re_recv ev = RData d" "d \<noteq> []" "length d \<le> recvBufSize"
    and "co_Retrieve mem_ops t h' k (iw_cache w') = (Inr (Some v), c')"
  shows "take (length d) v = take (length v) d \<and> (\<exists>m. v = take m (h' a))"
proof -
  have "buf_slices a (mem_New n)" by (simp add: buf_slices_def mem_New_def)
  then have inv: "buf_slices a (iw_cache w')" using buf_slices_loop [OF _ assms(1)] by simp
  obtain s where s: "mem_view (iw_cache w') t k = Some s" "v = deref h' s"
    using assms(5) by (auto simp: mem_ops_Retrieve)
  then have "sl_arr s = a" "sl_off s = 0"
    using inv by (auto simp: mem_view_def buf_slices_def split: option.splits if_splits)
  then have v: "v = take (sl_len s) (h' a)" using s(2) by (simp add: deref_def sub_def)
  obtain h1 w1 where "recv_step fp mem_ops wk a ev (h1, w1) = (False, h', w')"
    using assms(1) by (auto simp: recv_loop_append split: prod.splits bool.splits)
  then have "h' a = put_at (h1 a) 0 d"
    using assms(2-4) by (auto simp: recv_step_data Let_def)
  then have "take (length d) v = take (length v) d" by (simp add: v put_at_def min_def)
  then show ?thesis using v by blast
qed

text \<open>Two frames of one flow, the second received after the first.\<close>

definition ex_raw :: "byte \<Rightarrow> bytes" where
  "ex_raw i = replicate 6 0 @ [2] @ replicate 48 0 @ [i]"

definition ex_event :: "byte \<Rightarrow> recv_event" where
  "ex_event i = \<lparr>re_recv = RData (ex_raw i), re_ctxDone = False, re_now = 0, re_choice = 0\<rparr>"

lemma ex_raw_simps [simp]:
  "length (ex_raw i) = 56" "ex_raw i \<noteq> []" "ex_raw i ! 6 = 2"
  by (simp_all add: ex_raw_def nth_append)

lemma decode_ex_raw: "decode_any ex_frame (ex_raw i) = Inr \<lparr>d_HashKey = 0, d_SeqNum = ucast i\<rparr>"
proof -
  have "sub (ex_raw i) 40 48 = be64 0" "sub (ex_raw i) 48 56 = replicate 7 0 @ [i]"
    by (simp_all add: sub_def ex_raw_def be64_def numeral_eq_Suc)
  moreover have "Uint64 (replicate 7 0 @ [i]) = ucast i"
    by (simp add: Uint64_def nth_append)
  ultimately show ?thesis
    by (simp add: decode_any_def ex_frame_def ex_decode_def)
qed

lemma recv_ex_event:
  assumes "ucast i \<noteq> (0 :: u64)"
  shows "recv_step ex_frame mem_ops wk a (ex_event i) (h, \<lparr>iw_cache = c, iw_rec = None\<rparr>) =
    (False, h(a := put_at (h a) 0 (ex_raw i)),
     \<lparr>iw_cache = snd (mem_Store 0 0 (frame_key 0 (ucast i)) \<lparr>sl_arr = a, sl_off = 0, sl_len = 56\<rparr> (wk_ttl wk) c),
      iw_rec = None\<rparr>)"
proof -
  have "take 56 (put_at (h a) 0 (ex_raw i)) = ex_raw i"
    using take_put_at_front [of "ex_raw i"] by simp
  then show ?thesis
    using assms recv_step_data [of "ex_raw i" "ex_event i" ex_frame mem_ops wk a h]
    by (simp add: ex_event_def recvBufSize_def processFrame_decode_any decode_ex_raw cache_decoded_def
        mem_ops_Store Let_def case_prod_beta)
qed

theorem memory_cache_serves_receive_buffer_witness:
  "\<exists>h' w' c'. recv_loop ex_frame mem_ops (worker_New ex_iface 9001 [] second) 0 [ex_event 1, ex_event 2]
      (\<lambda>_. [], \<lparr>iw_cache = mem_New 0, iw_rec = None\<rparr>) = (False, h', w')
    \<and> co_Retrieve mem_ops 5 h' (frame_key 0 1) (iw_cache w') = (Inr (Some (ex_raw 2)), c')"
proof -
  let ?wk = "worker_New ex_iface 9001 [] second"
  let ?st = "(\<lambda>_. [], \<lparr>iw_cache = mem_New 0, iw_rec = None\<rparr>)"
  let ?s = "\<lparr>sl_arr = 0, sl_off = 0, sl_len = 56\<rparr>"
  define c where "c = snd (mem_Store 0 0 (frame_key 0 2) ?s second (snd (mem_Store 0 0 (frame_key 0 1) ?s second (mem_New 0))))"
  define h :: heap where "h = (\<lambda>_. [])(0 := put_at (put_at [] 0 (ex_raw 1)) 0 (ex_raw 2))"
  have loop: "recv_loop ex_frame mem_ops ?wk 0 ([ex_event 1] @ [ex_event 2]) ?st = (False, h, \<lparr>iw_cache = c, iw_rec = None\<rparr>)"
    by (simp add: recv_ex_event c_def h_def worker_New_def)
  have view: "mem_view c 5 (frame_key 0 1) = Some ?s"
    by (simp add: c_def mem_view_def mem_Store_evict evict_def mem_New_def)
  then have get: "co_Retrieve mem_ops 5 h (frame_key 0 1) c = (Inr (Some (take 56 (h 0))), c)"
    by (simp add: mem_ops_Retrieve)
  have "take 56 (take 56 (h 0)) = take (length (take 56 (h 0))) (ex_raw 2)"
    using memory_cache_serves_receive_buffer [OF loop, of "ex_raw 2" 5 "frame_key 0 1" "take 56 (h 0)" c] get
    by (simp add: ex_event_def recvBufSize_def)
  moreover have "length (h 0) = 56" by (simp add: h_def put_at_def)
  ultimately have "take 56 (h 0) = ex_raw 2" by simp
  then show ?thesis using loop get by auto
qed

text \<open>Setting up the worker leaks no descriptor: when \<open>Run\<close> fails to open the socket or to join a
  group, the descriptors that are open afterwards are those open before, and when the set-up
  succeeds exactly one more is open.\<close>

lemma ingress_setup_no_leak:
  "case ingress_Run fp ops env wk a evs fds st of
     (Inl e, fds', st') \<Rightarrow> fds' = fds \<and> st' = st
   | (Inr done, fds', st') \<Rightarrow> \<exists>fd. ra_socket env = Inr fd \<and> fds' = fd # fds"
proof -
  obtain res fds1 where o: "openRawSocket env wk fds = (res, fds1)" by fastforce
  show ?thesis
  proof (cases res)
    case (Inl e)
    then show ?thesis using o openRawSocket_fds [OF o] by (simp add: ingress_Run_def)
  next
    case (Inr fd)
    then have fd: "fds1 = fd # fds" "ra_socket env = Inr fd"
      using o openRawSocket_fds [OF o]
      by (auto simp: openRawSocket_def Let_def split: sum.splits option.splits)
    obtain e fds2 where j: "join_loop env (wk_iface wk) (wk_groups wk) fd fds1 = (e, fds2)" by fastforce
    show ?thesis using o Inr j join_loop_fds [OF j] fd
      by (cases e) (auto simp: ingress_Run_def Let_def split: prod.splits bool.splits)
  qed
qed

end
