(* ===== verification/Window_Spec.thy ===== *)
theory Window_Spec
  imports Go_Base
begin

text \<open>
  The specification both sliding-window limiters of \<open>src/ratelimit/ratelimit.go\<close> implement, and the
  interface (locale \<open>window_limiter\<close>) through which it is proved once for both.  The specification
  keeps the full log of admitted calls of every key and admits a call exactly when fewer than
  \<open>max\<close> admissions lie in the window that ends at the call; the code keeps only a pruned list.

  A call reads the clock before it takes the mutex, so in the order of the mutex a reading may lie behind an earlier
  one.  \<open>clock_skew\<close> bounds by how much; \<open>clock_mono\<close> is the case of no skew.
\<close>

section \<open>The log-keeping specification\<close>

fun log_run :: "int \<Rightarrow> duration \<Rightarrow> ('k \<Rightarrow> time list) \<Rightarrow> (time \<times> 'k) list \<Rightarrow> bool list" where
  "log_run mx w A [] = []"
| "log_run mx w A ((now, k) # calls) =
     (let ok = int (length (filter (\<lambda>t. now - w < t) (A k))) < mx
      in ok # log_run mx w (if ok then A(k := A k @ [now]) else A) calls)"

text \<open>The admitted calls of a key in the half-open window of length \<open>w\<close> that ends at \<open>T\<close>.\<close>

definition admitted_in :: "'k \<Rightarrow> time \<Rightarrow> duration \<Rightarrow> (time \<times> 'k) list \<Rightarrow> bool list \<Rightarrow> nat" where
  "admitted_in k T w calls oks =
     length (filter (\<lambda>((t, k'), ok). ok \<and> k' = k \<and> T - w < t \<and> t \<le> T) (zip calls oks))"

abbreviation in_window :: "time \<Rightarrow> duration \<Rightarrow> time list \<Rightarrow> nat" where
  "in_window T w ts \<equiv> length (filter (\<lambda>t. T - w < t \<and> t \<le> T) ts)"

definition clock_mono :: "(time \<times> 'k) list \<Rightarrow> bool" where
  "clock_mono calls \<longleftrightarrow> sorted (map fst calls)"

lemma clock_mono_Cons:
  "clock_mono (c # calls) \<longleftrightarrow> (\<forall>d \<in> set calls. fst c \<le> fst d) \<and> clock_mono calls"
  by (auto simp: clock_mono_def)

lemma length_log_run [simp]: "length (log_run mx w A calls) = length calls"
  by (induction mx w A calls rule: log_run.induct) (simp_all add: Let_def)

lemma length_filter_mono: "(\<And>x. x \<in> set xs \<Longrightarrow> P x \<Longrightarrow> Q x) \<Longrightarrow> length (filter P xs) \<le> length (filter Q xs)"
  by (induction xs) auto

text \<open>No reading lies more than \<open>\<delta>\<close> behind an earlier one.\<close>

fun clock_skew :: "duration \<Rightarrow> (time \<times> 'k) list \<Rightarrow> bool" where
  "clock_skew \<delta> [] = True"
| "clock_skew \<delta> (c # calls) \<longleftrightarrow> (\<forall>d \<in> set calls. fst c \<le> fst d + \<delta>) \<and> clock_skew \<delta> calls"

lemma clock_skew_zero: "clock_skew 0 calls \<longleftrightarrow> clock_mono calls"
  by (induction calls) (simp_all add: clock_mono_def)

section \<open>The interface of a sliding-window limiter\<close>

text \<open>
  \<open>allow now k s\<close> is the method; \<open>stamps\<close> reads the timestamps the limiter keeps for a key.
  \<open>sane\<close> is the range of \<open>max\<close> in which the slice for a new key can be allocated.
\<close>

definition sane :: "int \<Rightarrow> bool" where
  "sane n \<longleftrightarrow> 0 \<le> n \<and> 24 * n \<le> 2 ^ 48"

locale window_limiter =
  fixes allow :: "time \<Rightarrow> 'k \<Rightarrow> 's \<Rightarrow> panic + (bool \<times> 's)"
    and stamps :: "'s \<Rightarrow> 'k \<Rightarrow> time list"
    and maxn :: "'s \<Rightarrow> int"
    and window :: "'s \<Rightarrow> duration"
  assumes allow_prunes: "sane (maxn s) \<Longrightarrow>
      \<exists>s'. allow now k s = Inr (int (length (filter (\<lambda>t. now - window s < t) (stamps s k))) < maxn s, s')
        \<and> maxn s' = maxn s \<and> window s' = window s
        \<and> stamps s' = (stamps s)(k :=
            filter (\<lambda>t. now - window s < t) (stamps s k)
            @ (if int (length (filter (\<lambda>t. now - window s < t) (stamps s k))) < maxn s then [now] else []))"
begin

text \<open>A sequence of calls: the decisions, or the panic that ended it.\<close>

fun allow_run :: "(time \<times> 'k) list \<Rightarrow> 's \<Rightarrow> panic + (bool list \<times> 's)" where
  "allow_run [] s = Inr ([], s)"
| "allow_run ((now, k) # calls) s =
     (case allow now k s of
        Inl p \<Rightarrow> Inl p
      | Inr (ok, s') \<Rightarrow> (case allow_run calls s' of
           Inl p \<Rightarrow> Inl p
         | Inr (oks, s'') \<Rightarrow> Inr (ok # oks, s'')))"

text \<open>
  The pruned list and the full log have the same entries after every cut-off that a later call
  can use.
\<close>

definition agrees :: "time \<Rightarrow> 's \<Rightarrow> ('k \<Rightarrow> time list) \<Rightarrow> bool" where
  "agrees T s A \<longleftrightarrow> (\<forall>k c. T - window s \<le> c \<longrightarrow> filter (\<lambda>t. c < t) (stamps s k) = filter (\<lambda>t. c < t) (A k))"

lemma allow_agrees:
  assumes "sane (maxn s)" "agrees T s A" "T \<le> now"
  shows "\<exists>s' ok. allow now k s = Inr (ok, s') \<and> maxn s' = maxn s \<and> window s' = window s
    \<and> ok = (int (length (filter (\<lambda>t. now - window s < t) (A k))) < maxn s)
    \<and> agrees now s' (if ok then A(k := A k @ [now]) else A)"
proof -
  define live where "live = filter (\<lambda>t. now - window s < t) (stamps s k)"
  define ok where "ok \<longleftrightarrow> int (length live) < maxn s"
  from allow_prunes [OF assms(1), of now k] obtain s' where s':
    "allow now k s = Inr (ok, s')" "maxn s' = maxn s" "window s' = window s"
    "stamps s' = (stamps s)(k := live @ (if ok then [now] else []))"
    unfolding live_def ok_def by blast
  have live: "live = filter (\<lambda>t. now - window s < t) (A k)"
    using assms(2,3) by (simp add: agrees_def live_def)
  have "agrees now s' (if ok then A(k := A k @ [now]) else A)"
    unfolding agrees_def
  proof (intro allI impI)
    fix k' c assume "now - window s' \<le> c"
    then have c: "now - window s \<le> c" "T - window s \<le> c" using assms(3) s'(3) by auto
    have "filter (\<lambda>t. c < t) live = filter (\<lambda>t. c < t) (A k)"
      using c(1) by (auto simp: live intro!: filter_cong)
    then show "filter (\<lambda>t. c < t) (stamps s' k')
        = filter (\<lambda>t. c < t) ((if ok then A(k := A k @ [now]) else A) k')"
      using assms(2) c by (simp add: s'(4) agrees_def)
  qed
  then show ?thesis using s' live ok_def by auto
qed

text \<open>The limiter takes exactly the decisions of the specification and never panics.\<close>

lemma run_refines_log:
  assumes "sane (maxn s)" "agrees T s A" "clock_mono calls" "\<forall>c \<in> set calls. T \<le> fst c"
  shows "\<exists>s'. allow_run calls s = Inr (log_run (maxn s) (window s) A calls, s')
    \<and> maxn s' = maxn s \<and> window s' = window s"
  using assms
proof (induction calls arbitrary: s T A)
  case (Cons c calls)
  obtain now k where c: "c = (now, k)" by (cases c)
  then have "T \<le> now" using Cons.prems by simp
  from allow_agrees [OF Cons.prems(1,2) this, of k] obtain s' ok where s':
    "allow now k s = Inr (ok, s')" "maxn s' = maxn s" "window s' = window s"
    "ok = (int (length (filter (\<lambda>t. now - window s < t) (A k))) < maxn s)"
    "agrees now s' (if ok then A(k := A k @ [now]) else A)" by blast
  have "clock_mono calls" "\<forall>d \<in> set calls. now \<le> fst d"
    using Cons.prems(3) by (simp_all add: clock_mono_Cons c)
  then obtain s'' where "allow_run calls s' = Inr (log_run (maxn s) (window s)
      (if ok then A(k := A k @ [now]) else A) calls, s'')" "maxn s'' = maxn s" "window s'' = window s"
    using Cons.IH [of s' now] s' Cons.prems(1) by fastforce
  then show ?case using s' by (simp add: c Let_def)
qed simp

text \<open>
  Whatever the order of the readings, an admitted call at \<open>t\<close> is forgotten only by a call at \<open>t + window\<close> or later; with skew
  \<open>\<delta>\<close> no call before \<open>t + window - \<delta>\<close> comes after that.  \<open>keeps\<close> says so of the full log \<open>A\<close> and the calls to come.
\<close>

definition keeps :: "duration \<Rightarrow> (time \<times> 'k) list \<Rightarrow> 's \<Rightarrow> ('k \<Rightarrow> time list) \<Rightarrow> bool" where
  "keeps \<delta> calls s A \<longleftrightarrow> (\<forall>d \<in> set calls. \<forall>k c. fst d + \<delta> - window s \<le> c \<longrightarrow>
     filter (\<lambda>t. c < t) (stamps s k) = filter (\<lambda>t. c < t) (A k))"

lemma allow_keeps:
  assumes "sane (maxn s)" "keeps \<delta> ((now, k) # calls) s A" "\<forall>d \<in> set calls. now \<le> fst d + \<delta>"
    and "allow now k s = Inr (ok, s')"
  shows "keeps \<delta> calls s' (if ok then A(k := A k @ [now]) else A)"
  unfolding keeps_def
proof (intro ballI allI impI)
  fix d k' c
  assume d: "d \<in> set calls" "fst d + \<delta> - window s' \<le> c"
  have s': "window s' = window s" "stamps s' = (stamps s)(k := filter (\<lambda>t. now - window s < t) (stamps s k) @ (if ok then [now] else []))"
    using allow_prunes [OF assms(1), of now k] assms(4) by auto
  have "filter (\<lambda>t. c < t) (stamps s j) = filter (\<lambda>t. c < t) (A j)" for j
    using assms(2) d s'(1) unfolding keeps_def by (metis list.set_intros(2))
  moreover have "filter (\<lambda>t. c < t) (filter (\<lambda>t. now - window s < t) (stamps s k)) = filter (\<lambda>t. c < t) (stamps s k)"
    using assms(3) d s'(1) by (fastforce intro: filter_cong)
  ultimately show "filter (\<lambda>t. c < t) (stamps s' k') = filter (\<lambda>t. c < t) ((if ok then A(k := A k @ [now]) else A) k')"
    by (simp add: s'(2))
qed

lemma admit_window:
  assumes "sane (maxn s)" "keeps \<delta> ((now, k) # calls) s A" "0 \<le> \<delta>" "allow now k s = Inr (True, s')"
    and "int (in_window T (window s - \<delta>) (A k)) \<le> maxn s"
  shows "int (in_window T (window s - \<delta>) (A k @ [now])) \<le> maxn s"
proof (cases "now \<le> T")
  case True
  let ?c = "now + \<delta> - window s"
  have "in_window T (window s - \<delta>) (A k) \<le> length (filter (\<lambda>t. ?c < t) (A k))"
    using True by (intro length_filter_mono) auto
  also have "\<dots> = length (filter (\<lambda>t. ?c < t) (stamps s k))"
    using assms(2) by (simp add: keeps_def)
  also have "\<dots> \<le> length (filter (\<lambda>t. now - window s < t) (stamps s k))"
    using assms(3) by (intro length_filter_mono) auto
  finally show ?thesis using allow_prunes [OF assms(1), of now k] assms(4) by auto
qed (use assms(5) in simp)

lemma run_window:
  assumes "sane (maxn s)" "keeps \<delta> calls s A" "0 \<le> \<delta>" "clock_skew \<delta> calls"
    and "allow_run calls s = Inr (oks, s')" "int (in_window T (window s - \<delta>) (A k)) \<le> maxn s"
  shows "int (in_window T (window s - \<delta>) (A k) + admitted_in k T (window s - \<delta>) calls oks) \<le> maxn s"
  using assms
proof (induction calls arbitrary: s A oks)
  case Nil
  then show ?case by (simp add: admitted_in_def)
next
  case (Cons c calls)
  obtain now k' where c: "c = (now, k')" by (cases c)
  from Cons.prems(5) obtain ok s1 oks1 where r: "allow now k' s = Inr (ok, s1)" "allow_run calls s1 = Inr (oks1, s')"
    "oks = ok # oks1" by (auto simp: c split: sum.splits prod.splits)
  let ?A = "if ok then A(k' := A k' @ [now]) else A"
  have s1: "maxn s1 = maxn s" "window s1 = window s" using allow_prunes [OF Cons.prems(1), of now k'] r(1) by auto
  have "keeps \<delta> calls s1 ?A" using allow_keeps [OF Cons.prems(1) _ _ r(1)] Cons.prems(2,4) c by simp
  moreover have w: "int (in_window T (window s - \<delta>) (?A k)) \<le> maxn s"
    using admit_window [OF Cons.prems(1) _ Cons.prems(3)] Cons.prems(2,6) r(1) c by (cases "ok \<and> k' = k") auto
  ultimately have "int (in_window T (window s - \<delta>) (?A k) + admitted_in k T (window s - \<delta>) calls oks1) \<le> maxn s"
    using Cons.IH [of s1 ?A oks1] Cons.prems(1,3,4) r(2) s1 by simp
  moreover have "in_window T (window s - \<delta>) (?A k) + admitted_in k T (window s - \<delta>) calls oks1
      = in_window T (window s - \<delta>) (A k) + admitted_in k T (window s - \<delta>) (c # calls) oks"
    by (auto simp: admitted_in_def c r(3))
  ultimately show ?case by metis
qed

lemma run_bound:
  assumes "sane (maxn s)" "\<And>k. stamps s k = []" "0 \<le> \<delta>" "clock_skew \<delta> calls"
    and "allow_run calls s = Inr (oks, s')"
  shows "int (admitted_in k T (window s - \<delta>) calls oks) \<le> maxn s"
  using run_window [of s \<delta> calls "\<lambda>_. []" oks s' T k] assms by (simp add: keeps_def sane_def)

lemma run_returns: "sane (maxn s) \<Longrightarrow> \<exists>oks s'. allow_run calls s = Inr (oks, s')"
proof (induction calls arbitrary: s)
  case (Cons c calls)
  obtain now k where c: "c = (now, k)" by (cases c)
  from allow_prunes [OF Cons.prems, of now k] obtain ok s1 where "allow now k s = Inr (ok, s1)" "maxn s1 = maxn s" by blast
  then show ?case using Cons.IH [of s1] Cons.prems by (auto simp: c)
qed simp

text \<open>
  The bound on the skew is needed.  When the readings of two calls overtake each other by one nanosecond, the later reading
  makes the limiter forget a full window that the earlier one still lies in.
\<close>

lemma run_fill:
  assumes "sane (maxn s)" "0 < window s" "stamps s k = replicate j 0" "int (j + n) \<le> maxn s"
  shows "\<exists>s'. allow_run (replicate n (0, k) @ calls) s =
      (case allow_run calls s' of Inl p \<Rightarrow> Inl p | Inr (oks, s'') \<Rightarrow> Inr (replicate n True @ oks, s''))
    \<and> stamps s' k = replicate (j + n) 0 \<and> maxn s' = maxn s \<and> window s' = window s"
  using assms
proof (induction n arbitrary: s j)
  case 0
  then show ?case by (intro exI [of _ s]) (auto split: sum.split)
next
  case (Suc n)
  from allow_prunes [OF Suc.prems(1), of 0 k] obtain s1 where s1: "allow 0 k s = Inr (True, s1)"
    "maxn s1 = maxn s" "window s1 = window s" "stamps s1 k = replicate (Suc j) 0"
    using Suc.prems by (auto simp: replicate_append_same)
  moreover have "int (Suc j + n) \<le> maxn s1" using Suc.prems s1(2) by simp
  ultimately obtain s' where "allow_run (replicate n (0, k) @ calls) s1 =
      (case allow_run calls s' of Inl p \<Rightarrow> Inl p | Inr (oks, s'') \<Rightarrow> Inr (replicate n True @ oks, s''))"
    "stamps s' k = replicate (Suc j + n) 0" "maxn s' = maxn s" "window s' = window s"
    using Suc.IH [of s1 "Suc j"] Suc.prems by auto
  then show ?case using s1(1) by (intro exI [of _ s']) (auto split: sum.split)
qed

lemma run_overrun:
  assumes "sane (maxn s)" "2 \<le> maxn s" "0 < window s" "stamps s k = []"
  defines "calls \<equiv> replicate (nat (maxn s)) (0, k) @ [(window s, k), (window s - 1, k)]"
  shows "\<exists>s'. allow_run calls s = Inr (replicate (nat (maxn s)) True @ [True, True], s')
    \<and> clock_skew 1 calls
    \<and> int (admitted_in k (window s - 1) (window s) calls (replicate (nat (maxn s)) True @ [True, True])) = maxn s + 1"
proof -
  let ?w = "window s"
  from run_fill [of s k 0 "nat (maxn s)" "[(?w, k), (?w - 1, k)]"] assms obtain s1 where
    s1: "allow_run calls s = (case allow_run [(?w, k), (?w - 1, k)] s1 of Inl p \<Rightarrow> Inl p
        | Inr (oks, s'') \<Rightarrow> Inr (replicate (nat (maxn s)) True @ oks, s''))"
      "stamps s1 k = replicate (nat (maxn s)) 0" "maxn s1 = maxn s" "window s1 = ?w" by auto
  from allow_prunes [of s1 ?w k] s1 assms obtain s2 where
    s2: "allow ?w k s1 = Inr (True, s2)" "maxn s2 = maxn s" "window s2 = ?w" "stamps s2 k = [?w]" by auto
  from allow_prunes [of s2 "?w - 1" k] s2 assms obtain s3 where s3: "allow (?w - 1) k s2 = Inr (True, s3)" by auto
  have run: "allow_run calls s = Inr (replicate (nat (maxn s)) True @ [True, True], s3)"
    using s1(1) s2(1) s3 by simp
  have "clock_skew 1 (replicate n (0, k) @ [(?w, k), (?w - 1, k)])" for n
    using assms(3) by (induction n) auto
  moreover have "length (filter (\<lambda>((t, k'), ok). ok \<and> k' = k \<and> ?w - 1 - ?w < t \<and> t \<le> ?w - 1)
      (zip (replicate n (0, k) @ [(?w, k), (?w - 1, k)]) (replicate n True @ [True, True]))) = n + 1" for n
    using assms(3) by (induction n) auto
  ultimately show ?thesis using run assms(2) by (auto simp: calls_def admitted_in_def)
qed

lemma run_total:
  assumes "sane (maxn s)" "\<And>k. stamps s k = []" "clock_mono calls"
  shows "\<exists>s'. allow_run calls s = Inr (log_run (maxn s) (window s) (\<lambda>_. []) calls, s')"
proof (cases calls)
  case (Cons c cs)
  have "agrees (fst c) s (\<lambda>_. [])" using assms(2) by (simp add: agrees_def)
  moreover have "\<forall>d \<in> set calls. fst c \<le> fst d"
    using assms(3) by (simp add: Cons clock_mono_Cons)
  ultimately show ?thesis using run_refines_log [OF assms(1) _ assms(3)] by blast
qed simp

end

end
