(* ===== verification/Rate_Limit.thy ===== *)
theory Rate_Limit
  imports Go_Parse Window_Spec
begin

text \<open>
  The four-tier limiter of \<open>src/ratelimit/ratelimit.go\<close>.  \<open>golang.org/x/time/rate\<close> is a parameter:
  \<open>rp_New\<close> is \<open>rate.NewLimiter\<close> and \<open>rp_Allow\<close> is \<open>Limiter.Allow\<close> at a clock reading.  The two
  sliding-window limiters are modelled separately, as the source has them, and both interpret the
  interface \<open>window_limiter\<close>.  Every method runs under its mutex (the token bucket's \<open>rate.Limiter\<close>
  under its own), so a method is one function on the state.  The clock is read before the mutex is taken, so the readings of
  successive calls are arbitrary; theorems that need more say so (\<open>clock_mono\<close>, \<open>clock_skew\<close>).

  A call panics when the slice for a new key cannot be made, which a negative \<open>SequenceMax\<close>
  causes.
\<close>

section \<open>Levels and configuration\<close>

datatype Level = LevelIP | LevelChain | LevelSequence | LevelGroup

fun level_string :: "Level \<Rightarrow> bytes" where
  "level_string LevelIP = str ''ip''"
| "level_string LevelChain = str ''chain''"
| "level_string LevelSequence = str ''sequence''"
| "level_string LevelGroup = str ''group''"

record rl_config =
  IPRate :: f64
  IPBurst :: int
  SenderRate :: f64
  SenderWindow :: duration
  ChainRate :: f64
  ChainWindow :: duration
  SequenceMax :: int
  SequenceWindow :: duration
  GroupRate :: f64
  GroupBurst :: int

section \<open>Token bucket per key\<close>

record 'b rate_pkg =
  rp_New :: "f64 \<Rightarrow> int \<Rightarrow> 'b"
  rp_Allow :: "time \<Rightarrow> 'b \<Rightarrow> bool \<times> 'b"

record 'b tokenBucketLimiter =
  tb_limit :: "(bytes \<times> 'b) list"
  tb_r :: f64
  tb_burst :: int

definition newTokenBucketLimiter :: "f64 \<Rightarrow> int \<Rightarrow> 'b tokenBucketLimiter" where
  "newTokenBucketLimiter tokensPerSec burst = \<lparr>tb_limit = [], tb_r = tokensPerSec, tb_burst = burst\<rparr>"

definition tb_Allow :: "'b rate_pkg \<Rightarrow> time \<Rightarrow> bytes \<Rightarrow> 'b tokenBucketLimiter \<Rightarrow> bool \<times> 'b tokenBucketLimiter" where
  "tb_Allow P now key t =
     (let l = (case map_of (tb_limit t) key of Some l \<Rightarrow> l | None \<Rightarrow> rp_New P (tb_r t) (tb_burst t));
          (ok, l') = rp_Allow P now l
      in (ok, t\<lparr>tb_limit := AList.update key l' (tb_limit t)\<rparr>))"

section \<open>Sliding windows\<close>

text \<open>\<open>make([]time.Time, 0, max)\<close>: a \<open>time.Time\<close> has 24 bytes and an allocation at most 2^48.\<close>

definition make_timestamps :: "int \<Rightarrow> panic + time list" where
  "make_timestamps n = (if 0 \<le> n \<and> 24 * n \<le> 2 ^ 48 then Inr [] else Inl MakeSliceCapOutOfRange)"

text \<open>
  The compaction loop: it ranges over the slice by index \<open>i\<close> and writes the survivors to the front
  of the same array.
\<close>

function compact_loop :: "time \<Rightarrow> nat \<Rightarrow> nat \<Rightarrow> nat \<Rightarrow> time list \<Rightarrow> nat \<times> time list" where
  "compact_loop cutoff i n validIdx ts =
     (if i < n then
        (if ts ! i > cutoff then compact_loop cutoff (Suc i) n (Suc validIdx) (ts[validIdx := ts ! i])
         else compact_loop cutoff (Suc i) n validIdx ts)
      else (validIdx, ts))"
  by pat_completeness auto
termination
  by (relation "measure (\<lambda>(cutoff, i, n, validIdx, ts). n - i)") auto

declare compact_loop.simps [simp del]

record slidingWindowLimiter =
  sw_keys :: "(bytes \<times> time list) list"
  sw_max :: int
  sw_window :: duration

definition newSlidingWindowLimiter :: "int \<Rightarrow> duration \<Rightarrow> slidingWindowLimiter" where
  "newSlidingWindowLimiter mx window = \<lparr>sw_keys = [], sw_max = mx, sw_window = window\<rparr>"

definition sw_Allow :: "time \<Rightarrow> bytes \<Rightarrow> slidingWindowLimiter \<Rightarrow> panic + (bool \<times> slidingWindowLimiter)" where
  "sw_Allow now key r =
     (case (case map_of (sw_keys r) key of Some ts \<Rightarrow> Inr ts | None \<Rightarrow> make_timestamps (sw_max r)) of
        Inl p \<Rightarrow> Inl p
      | Inr ts0 \<Rightarrow>
          let cutoff = now - sw_window r;
              (validIdx, ts1) = compact_loop cutoff 0 (length ts0) 0 ts0;
              ts = take validIdx ts1
          in if int (length ts) \<ge> sw_max r
             then Inr (False, r\<lparr>sw_keys := AList.update key ts (sw_keys r)\<rparr>)
             else Inr (True, r\<lparr>sw_keys := AList.update key (ts @ [now]) (sw_keys r)\<rparr>))"

record sequenceLimiter =
  sq_seqs :: "(u64 \<times> time list) list"
  sq_max :: int
  sq_window :: duration

definition newSequenceLimiter :: "int \<Rightarrow> duration \<Rightarrow> sequenceLimiter" where
  "newSequenceLimiter mx window = \<lparr>sq_seqs = [], sq_max = mx, sq_window = window\<rparr>"

definition sq_Allow :: "time \<Rightarrow> u64 \<Rightarrow> sequenceLimiter \<Rightarrow> panic + (bool \<times> sequenceLimiter)" where
  "sq_Allow now seqNum r =
     (case (case map_of (sq_seqs r) seqNum of Some ts \<Rightarrow> Inr ts | None \<Rightarrow> make_timestamps (sq_max r)) of
        Inl p \<Rightarrow> Inl p
      | Inr ts0 \<Rightarrow>
          let cutoff = now - sq_window r;
              (validIdx, ts1) = compact_loop cutoff 0 (length ts0) 0 ts0;
              ts = take validIdx ts1
          in if int (length ts) \<ge> sq_max r
             then Inr (False, r\<lparr>sq_seqs := AList.update seqNum ts (sq_seqs r)\<rparr>)
             else Inr (True, r\<lparr>sq_seqs := AList.update seqNum (ts @ [now]) (sq_seqs r)\<rparr>))"

section \<open>The limiter\<close>

record 'b Limiter =
  ipLimiter :: "'b tokenBucketLimiter"
  chainLimiter :: slidingWindowLimiter
  sequenceLim :: sequenceLimiter
  groupLimiter :: "'b tokenBucketLimiter"

text \<open>\<open>New\<close>; \<open>oob\<close> is the platform's conversion of an out-of-range \<open>ChainRate\<close> to \<open>int\<close>.\<close>

definition rl_normalise :: "rl_config \<Rightarrow> rl_config" where
  "rl_normalise cfg0 =
     (let cfg1 = (if SequenceWindow cfg0 \<le> 0 then cfg0\<lparr>SequenceWindow := minute\<rparr> else cfg0);
          cfg2 = (if f64_eq_zero (ChainRate cfg1) \<and> \<not> f64_eq_zero (SenderRate cfg1)
                  then cfg1\<lparr>ChainRate := SenderRate cfg1\<rparr> else cfg1);
          cfg3 = (if ChainWindow cfg2 \<le> 0 \<and> SenderWindow cfg2 > 0
                  then cfg2\<lparr>ChainWindow := SenderWindow cfg2\<rparr> else cfg2)
      in (if ChainWindow cfg3 \<le> 0 then cfg3\<lparr>ChainWindow := minute\<rparr> else cfg3))"

definition Limiter_New :: "(f64 \<Rightarrow> int) \<Rightarrow> rl_config \<Rightarrow> 'b Limiter" where
  "Limiter_New oob cfg0 =
     (let cfg = rl_normalise cfg0;
          chainMax0 = int_of_f64 oob (ChainRate cfg);
          chainMax = (if chainMax0 \<le> 0 then 500 else chainMax0);
          groupRate = (if f64_le_zero (GroupRate cfg) then Fin 200 else GroupRate cfg);
          groupBurst = (if GroupBurst cfg \<le> 0 then 50 else GroupBurst cfg)
      in \<lparr>ipLimiter = newTokenBucketLimiter (IPRate cfg) (IPBurst cfg),
          chainLimiter = newSlidingWindowLimiter chainMax (ChainWindow cfg),
          sequenceLim = newSequenceLimiter (SequenceMax cfg) (SequenceWindow cfg),
          groupLimiter = newTokenBucketLimiter groupRate groupBurst\<rparr>)"

text \<open>
  \<open>Allow\<close>: the IP tier reads the clock at \<open>t1\<close>, the sequence tier at \<open>t2\<close>.  The level is \<open>None\<close>
  for the empty string of an admitted call.
\<close>

definition Limiter_Allow :: "'b rate_pkg \<Rightarrow> time \<Rightarrow> time \<Rightarrow> ip \<Rightarrow> u64 \<Rightarrow> 'b Limiter
    \<Rightarrow> panic + ((bool \<times> Level option) \<times> 'b Limiter)" where
  "Limiter_Allow P t1 t2 srcIP startSeq r =
     (let (ok, ipl) = tb_Allow P t1 (IP_String srcIP) (ipLimiter r);
          r1 = r\<lparr>ipLimiter := ipl\<rparr>
      in if \<not> ok then Inr ((False, Some LevelIP), r1)
         else case sq_Allow t2 startSeq (sequenceLim r1) of
             Inl p \<Rightarrow> Inl p
           | Inr (ok2, sq) \<Rightarrow>
               let r2 = r1\<lparr>sequenceLim := sq\<rparr>
               in if \<not> ok2 then Inr ((False, Some LevelSequence), r2) else Inr ((True, None), r2))"

definition chain_key :: "ip \<Rightarrow> u64 \<Rightarrow> bytes" where
  "chain_key srcIP hashKey = IP_String srcIP @ [colon] @ hex16 hashKey"

definition AllowChain :: "time \<Rightarrow> ip \<Rightarrow> u64 \<Rightarrow> 'b Limiter \<Rightarrow> panic + (bool \<times> 'b Limiter)" where
  "AllowChain t srcIP hashKey r =
     (if hashKey = 0 then Inr (True, r)
      else case sw_Allow t (chain_key srcIP hashKey) (chainLimiter r) of
          Inl p \<Rightarrow> Inl p
        | Inr (ok, sw) \<Rightarrow> Inr (ok, r\<lparr>chainLimiter := sw\<rparr>))"

definition group_key :: "ip \<Rightarrow> u32 \<Rightarrow> bytes" where
  "group_key srcIP groupIdx = IP_String srcIP @ [colon] @ dec_nat (unat groupIdx)"

definition AllowGroup :: "'b rate_pkg \<Rightarrow> time \<Rightarrow> ip \<Rightarrow> u32 \<Rightarrow> 'b Limiter \<Rightarrow> bool \<times> 'b Limiter" where
  "AllowGroup P t srcIP groupIdx r =
     (let (ok, g) = tb_Allow P t (group_key srcIP groupIdx) (groupLimiter r)
      in (ok, r\<lparr>groupLimiter := g\<rparr>))"

section \<open>The compaction loop is a filter\<close>

lemma compact_filter_aux:
  assumes "v \<le> i" "i \<le> n" "n = length ts"
  shows "\<exists>v' ts'. compact_loop cutoff i n v ts = (v', ts') \<and>
    take v' ts' = take v ts @ filter (\<lambda>t. cutoff < t) (drop i ts) \<and> length ts' = length ts \<and> v' \<le> n"
  using assms
proof (induction cutoff i n v ts rule: compact_loop.induct)
  case (1 cutoff i n v ts)
  show ?case
  proof (cases "i < n")
    case False
    then have "compact_loop cutoff i n v ts = (v, ts)" by (simp add: compact_loop.simps)
    then show ?thesis using 1 False by simp
  next
    case True
    then have d: "drop i ts = ts ! i # drop (Suc i) ts" using 1 by (simp add: Cons_nth_drop_Suc)
    show ?thesis
    proof (cases "ts ! i > cutoff")
      case True
      let ?ts = "ts[v := ts ! i]"
      have "take (Suc v) ?ts = take v ts @ [ts ! i]"
        using 1 \<open>i < n\<close> by (simp add: take_Suc_conv_app_nth)
      moreover have "drop (Suc i) ?ts = drop (Suc i) ts" using 1 by simp
      ultimately show ?thesis
        using 1(1) [OF \<open>i < n\<close> True] 1 \<open>i < n\<close> True d by (simp add: compact_loop.simps [of cutoff i])
    next
      case False
      then show ?thesis
        using 1(2) [OF \<open>i < n\<close> False] 1 \<open>i < n\<close> d by (simp add: compact_loop.simps [of cutoff i])
    qed
  qed
qed

lemma compact_filter:
  "compact_loop cutoff 0 (length ts) 0 ts = (v, ts') \<Longrightarrow> take v ts' = filter (\<lambda>t. cutoff < t) ts"
  using compact_filter_aux [of 0 0 "length ts" ts cutoff] by auto

section \<open>Both windows keep the interface\<close>

definition sw_stamps :: "slidingWindowLimiter \<Rightarrow> bytes \<Rightarrow> time list" where
  "sw_stamps r k = (case map_of (sw_keys r) k of Some ts \<Rightarrow> ts | None \<Rightarrow> [])"

definition sq_stamps :: "sequenceLimiter \<Rightarrow> u64 \<Rightarrow> time list" where
  "sq_stamps r k = (case map_of (sq_seqs r) k of Some ts \<Rightarrow> ts | None \<Rightarrow> [])"

lemma make_timestamps_sane: "sane n \<Longrightarrow> make_timestamps n = Inr []"
  by (simp add: sane_def make_timestamps_def)

lemma sw_Allow_eq:
  assumes "sane (sw_max r)"
  shows "sw_Allow now k r =
    (let live = filter (\<lambda>t. now - sw_window r < t) (sw_stamps r k)
     in Inr (int (length live) < sw_max r,
       r\<lparr>sw_keys := AList.update k (live @ (if int (length live) < sw_max r then [now] else [])) (sw_keys r)\<rparr>))"
proof -
  obtain v ts where c: "compact_loop (now - sw_window r) 0 (length (sw_stamps r k)) 0 (sw_stamps r k) = (v, ts)"
    by fastforce
  then have t: "take v ts = filter (\<lambda>t. now - sw_window r < t) (sw_stamps r k)" by (rule compact_filter)
  have "(case map_of (sw_keys r) k of Some ts \<Rightarrow> Inr ts | None \<Rightarrow> make_timestamps (sw_max r))
      = Inr (sw_stamps r k)"
    using assms by (simp add: sw_stamps_def make_timestamps_sane split: option.split)
  then show ?thesis using c t unfolding sw_Allow_def by (simp add: Let_def not_le not_less del: length_take)
qed

lemma sq_Allow_eq:
  assumes "sane (sq_max r)"
  shows "sq_Allow now k r =
    (let live = filter (\<lambda>t. now - sq_window r < t) (sq_stamps r k)
     in Inr (int (length live) < sq_max r,
       r\<lparr>sq_seqs := AList.update k (live @ (if int (length live) < sq_max r then [now] else [])) (sq_seqs r)\<rparr>))"
proof -
  obtain v ts where c: "compact_loop (now - sq_window r) 0 (length (sq_stamps r k)) 0 (sq_stamps r k) = (v, ts)"
    by fastforce
  then have t: "take v ts = filter (\<lambda>t. now - sq_window r < t) (sq_stamps r k)" by (rule compact_filter)
  have "(case map_of (sq_seqs r) k of Some ts \<Rightarrow> Inr ts | None \<Rightarrow> make_timestamps (sq_max r))
      = Inr (sq_stamps r k)"
    using assms by (simp add: sq_stamps_def make_timestamps_sane split: option.split)
  then show ?thesis using c t unfolding sq_Allow_def by (simp add: Let_def not_le not_less del: length_take)
qed

interpretation chainw: window_limiter sw_Allow sw_stamps sw_max sw_window
  by unfold_locales (simp add: sw_Allow_eq Let_def, simp add: sw_stamps_def fun_eq_iff)

interpretation seqw: window_limiter sq_Allow sq_stamps sq_max sq_window
  by unfold_locales (simp add: sq_Allow_eq Let_def, simp add: sq_stamps_def fun_eq_iff)

section \<open>Sequences of calls\<close>

text \<open>The decisions of a limiter over a sequence of calls; \<open>Inl\<close> when one of them panics.\<close>

fun sw_run :: "(time \<times> bytes) list \<Rightarrow> slidingWindowLimiter \<Rightarrow> panic + (bool list \<times> slidingWindowLimiter)" where
  "sw_run [] r = Inr ([], r)"
| "sw_run ((now, k) # calls) r =
     (case sw_Allow now k r of Inl p \<Rightarrow> Inl p
      | Inr (ok, r') \<Rightarrow> (case sw_run calls r' of Inl p \<Rightarrow> Inl p
         | Inr (oks, r'') \<Rightarrow> Inr (ok # oks, r'')))"

fun sq_run :: "(time \<times> u64) list \<Rightarrow> sequenceLimiter \<Rightarrow> panic + (bool list \<times> sequenceLimiter)" where
  "sq_run [] r = Inr ([], r)"
| "sq_run ((now, k) # calls) r =
     (case sq_Allow now k r of Inl p \<Rightarrow> Inl p
      | Inr (ok, r') \<Rightarrow> (case sq_run calls r' of Inl p \<Rightarrow> Inl p
         | Inr (oks, r'') \<Rightarrow> Inr (ok # oks, r'')))"

lemma sw_run_allow_run: "sw_run calls r = chainw.allow_run calls r"
  by (induction calls r rule: sw_run.induct) (auto split: sum.splits)

lemma sq_run_allow_run: "sq_run calls r = seqw.allow_run calls r"
  by (induction calls r rule: sq_run.induct) (auto split: sum.splits)

fun tb_run :: "'b rate_pkg \<Rightarrow> (time \<times> bytes) list \<Rightarrow> 'b tokenBucketLimiter \<Rightarrow> bool list" where
  "tb_run P [] t = []"
| "tb_run P ((now, k) # calls) t = (let (ok, t') = tb_Allow P now k t in ok # tb_run P calls t')"

text \<open>A single \<open>rate.Limiter\<close> on its own.\<close>

fun bucket_run :: "'b rate_pkg \<Rightarrow> time list \<Rightarrow> 'b \<Rightarrow> bool list" where
  "bucket_run P [] l = []"
| "bucket_run P (now # ts) l = (let (ok, l') = rp_Allow P now l in ok # bucket_run P ts l')"

definition calls_of :: "'k \<Rightarrow> (time \<times> 'k) list \<Rightarrow> time list" where
  "calls_of k calls = map fst (filter (\<lambda>(t, k'). k' = k) calls)"

definition oks_of :: "'k \<Rightarrow> (time \<times> 'k) list \<Rightarrow> bool list \<Rightarrow> bool list" where
  "oks_of k calls oks = map snd (filter (\<lambda>((t, k'), ok). k' = k) (zip calls oks))"

definition bucket_of :: "'b rate_pkg \<Rightarrow> 'b tokenBucketLimiter \<Rightarrow> bytes \<Rightarrow> 'b" where
  "bucket_of P t k = (case map_of (tb_limit t) k of Some l \<Rightarrow> l | None \<Rightarrow> rp_New P (tb_r t) (tb_burst t))"

lemma tb_Allow_bucket:
  "tb_Allow P now k t = (fst (rp_Allow P now (bucket_of P t k)),
     t\<lparr>tb_limit := AList.update k (snd (rp_Allow P now (bucket_of P t k))) (tb_limit t)\<rparr>)"
  by (simp add: tb_Allow_def bucket_of_def Let_def case_prod_beta)

lemma fst_tb_Allow: "fst (tb_Allow P now k t) = fst (rp_Allow P now (bucket_of P t k))"
  by (simp add: tb_Allow_bucket)

lemma bucket_of_Allow:
  "bucket_of P (snd (tb_Allow P now k t)) k'
    = (if k' = k then snd (rp_Allow P now (bucket_of P t k)) else bucket_of P t k')"
  by (simp add: tb_Allow_bucket bucket_of_def split: option.split)

lemma tb_run_bucket:
  "oks_of k calls (tb_run P calls t) = bucket_run P (calls_of k calls) (bucket_of P t k)"
proof (induction P calls t rule: tb_run.induct)
  case (1 P t)
  then show ?case by (simp add: oks_of_def calls_of_def)
next
  case (2 P now k' calls t)
  let ?t = "snd (tb_Allow P now k' t)"
  have "oks_of k calls (tb_run P calls ?t) = bucket_run P (calls_of k calls) (bucket_of P ?t k)"
    by (rule 2 [of "tb_Allow P now k' t" "fst (tb_Allow P now k' t)"]) simp_all
  then show ?case
    by (cases "k' = k")
      (simp_all add: oks_of_def calls_of_def Let_def case_prod_beta bucket_of_Allow fst_tb_Allow)
qed

section \<open>Keys\<close>

lemma chain_key_inject:
  "chain_key ip1 h1 = chain_key ip2 h2 \<longleftrightarrow> IP_String ip1 = IP_String ip2 \<and> h1 = h2"
  by (simp add: chain_key_def append_eq_append_conv)

lemma group_key_inject:
  "group_key ip1 g1 = group_key ip2 g2 \<longleftrightarrow> IP_String ip1 = IP_String ip2 \<and> g1 = g2"
proof
  assume "group_key ip1 g1 = group_key ip2 g2"
  then have "IP_String ip1 = IP_String ip2 \<and> dec_nat (unat g1) = dec_nat (unat g2)"
    unfolding group_key_def by (intro split_last_colon [of _ colon]) (auto simp: dec_nat_no_colon)
  then show "IP_String ip1 = IP_String ip2 \<and> g1 = g2"
    by (simp add: dec_nat_inject word_unat_eq_iff)
qed (simp add: group_key_def)

lemma sq_Allow_new_negative:
  "mx < 0 \<Longrightarrow> sq_Allow now k (newSequenceLimiter mx w) = Inl MakeSliceCapOutOfRange"
  by (simp add: sq_Allow_def newSequenceLimiter_def make_timestamps_def)

text \<open>Whatever the configuration, \<open>New\<close> gives the chain tier a positive maximum and both windows
  a positive length, and the group tier a positive burst; the sender aliases take effect exactly
  where the chain fields are unset.\<close>

lemma limiter_new_defaults:
  "0 < sw_max (chainLimiter (Limiter_New oob cfg))
   \<and> 0 < sw_window (chainLimiter (Limiter_New oob cfg))
   \<and> 0 < sq_window (sequenceLim (Limiter_New oob cfg))
   \<and> 0 < tb_burst (groupLimiter (Limiter_New oob cfg))
   \<and> sq_max (sequenceLim (Limiter_New oob cfg)) = SequenceMax cfg
   \<and> sw_window (chainLimiter (Limiter_New oob cfg)) =
       (if 0 < ChainWindow cfg then ChainWindow cfg
        else if 0 < SenderWindow cfg then SenderWindow cfg else minute)
   \<and> ChainRate (rl_normalise cfg) = (if f64_eq_zero (ChainRate cfg) then
        (if f64_eq_zero (SenderRate cfg) then ChainRate cfg else SenderRate cfg) else ChainRate cfg)"
  by (auto simp: Limiter_New_def rl_normalise_def newSlidingWindowLimiter_def newSequenceLimiter_def
      newTokenBucketLimiter_def Let_def)

section \<open>Properties\<close>

text \<open>C4: The sequence tier never admits more than \<open>SequenceMax\<close> NACKs for one SeqNum within any
  window of the configured length, wherever the window lies, over any sequence of calls whose clock readings, in the
  order in which the calls take the mutex, do not go back (\<open>\<delta> = 0\<close>).  A call reads the clock before it takes the mutex, so with several
  workers a reading may lie behind an earlier one: when by at most \<open>\<delta>\<close>, the bound holds for windows shorter by \<open>\<delta>\<close>.\<close>

theorem sequence_window_bound:
  assumes "sane mx" "0 \<le> \<delta>" "clock_skew \<delta> calls"
    and "sq_run calls (newSequenceLimiter mx w) = Inr (oks, r)"
  shows "int (admitted_in seq T (w - \<delta>) calls oks) \<le> mx"
  using assms seqw.run_bound [of "newSequenceLimiter mx w" \<delta> calls oks r seq T]
  by (simp add: sq_run_allow_run newSequenceLimiter_def sq_stamps_def)

theorem sequence_window_bound_witness:
  "int (admitted_in (9 :: u64) 5 10 [(0, 9), (3, 9), (4, 9)] [True, True, False]) \<le> 2"
proof -
  have "\<exists>r. sq_run [(0, 9), (3, 9), (4, 9)] (newSequenceLimiter 2 10) = Inr ([True, True, False], r)"
    by (simp add: sq_Allow_eq newSequenceLimiter_def sane_def sq_stamps_def)
  then obtain r where "sq_run [(0, 9), (3, 9), (4, 9)] (newSequenceLimiter 2 10) = Inr ([True, True, False], r)" ..
  then show ?thesis
    using sequence_window_bound [of 2 0 "[(0, 9), (3, 9), (4, 9)]" 10 "[True, True, False]" r 9 5] by (simp add: sane_def)
qed

text \<open>C14: The condition on the clock in the bound above is needed, for every configuration with \<open>SequenceMax \<ge> 2\<close> and a positive window, and
  the code does not ensure it, as it reads the clock before it takes the mutex.  When the readings of two workers overtake each other by one
  nanosecond, one NACK more than the maximum is admitted for a SeqNum within one window.\<close>

theorem clock_before_lock_overruns:
  assumes "sane mx" "2 \<le> mx" "0 < w"
  shows "\<exists>calls oks r. sq_run calls (newSequenceLimiter mx w) = Inr (oks, r) \<and> clock_skew 1 calls
    \<and> int (admitted_in seq (w - 1) w calls oks) = mx + 1"
  using assms seqw.run_overrun [of "newSequenceLimiter mx w" seq]
  by (auto simp: sq_run_allow_run newSequenceLimiter_def sq_stamps_def)

theorem clock_before_lock_overruns_witness:
  "\<exists>calls oks r. sq_run calls (newSequenceLimiter 100 minute) = Inr (oks, r) \<and> clock_skew 1 calls
    \<and> int (admitted_in (7 :: u64) (minute - 1) minute calls oks) = 101"
  using clock_before_lock_overruns [of 100 minute 7] by (simp add: sane_def)

text \<open>C9: When the clock readings do not go back in the order in which the calls take the mutex, the chain tier takes exactly the
  decisions of a limiter that keeps the full log of admissions of every key and admits a NACK when fewer than \<open>max\<close> admissions of its key
  lie in the window ending at it; in particular it never panics, forgets nothing it still needs, and a key
  that was quiet for a window is admitted again.  When readings lie behind earlier ones by at most \<open>\<delta>\<close> (the clock is read before the
  mutex is taken), its decisions may differ from the log's, but it still never panics and admits at most \<open>max\<close> calls of a key in any
  window shorter by \<open>\<delta>\<close>.\<close>

theorem chain_window_refines_log:
  assumes "sane mx"
  shows "(clock_mono calls \<longrightarrow> (\<exists>r. sw_run calls (newSlidingWindowLimiter mx w) = Inr (log_run mx w (\<lambda>_. []) calls, r)))
    \<and> (\<forall>\<delta>. 0 \<le> \<delta> \<and> clock_skew \<delta> calls \<longrightarrow> (\<exists>oks r. sw_run calls (newSlidingWindowLimiter mx w) = Inr (oks, r)
         \<and> (\<forall>k T. int (admitted_in k T (w - \<delta>) calls oks) \<le> mx)))"
proof -
  let ?l = "newSlidingWindowLimiter mx w"
  have l: "sane (sw_max ?l)" "\<And>k. sw_stamps ?l k = []" "sw_max ?l = mx" "sw_window ?l = w"
    using assms by (simp_all add: newSlidingWindowLimiter_def sw_stamps_def)
  obtain oks r where run: "sw_run calls ?l = Inr (oks, r)"
    using chainw.run_returns [OF l(1), of calls] by (auto simp: sw_run_allow_run)
  then show ?thesis
    using chainw.run_total [OF l(1,2), of calls] chainw.run_bound [OF l(1,2), of _ calls oks r] l(3,4)
    by (auto simp: sw_run_allow_run)
qed

theorem chain_window_refines_log_witness:
  "(\<exists>r. sw_run [(0, [1]), (3, [1]), (12, [1])] (newSlidingWindowLimiter 1 10) = Inr ([True, False, True], r))
    \<and> (\<exists>oks r. sw_run [(4, [1]), (4, [1]), (9, [1]), (8, [1])] (newSlidingWindowLimiter 2 5) = Inr (oks, r)
         \<and> int (admitted_in [1 :: byte] 8 (5 - 1) [(4, [1]), (4, [1]), (9, [1]), (8, [1])] oks) \<le> 2)"
proof (intro conjI)
  show "\<exists>r. sw_run [(0, [1]), (3, [1]), (12, [1])] (newSlidingWindowLimiter 1 10) = Inr ([True, False, True], r)"
    using chain_window_refines_log [of 1 "[(0, [1]), (3, [1]), (12, [1])]" 10, THEN conjunct1]
    by (simp add: sane_def clock_mono_def del: sw_run.simps)
  have c: "0 \<le> (1 :: int) \<and> clock_skew 1 [(4, [1]), (4, [1]), (9, [1]), (8, [1 :: byte])]" "sane 2" by (simp_all add: sane_def)
  then show "\<exists>oks r. sw_run [(4, [1]), (4, [1]), (9, [1]), (8, [1])] (newSlidingWindowLimiter 2 5) = Inr (oks, r)
         \<and> int (admitted_in [1 :: byte] 8 (5 - 1) [(4, [1]), (4, [1]), (9, [1]), (8, [1])] oks) \<le> 2"
    using chain_window_refines_log [of 2 "[(4, [1]), (4, [1]), (9, [1]), (8, [1])]" 5] by blast
qed

text \<open>Out of order the decisions can differ from the log's: the last call is refused by the log.\<close>

lemma unordered_readings_differ:
  "(\<exists>r. sw_run [(4, k), (4, k), (9, k), (8, k)] (newSlidingWindowLimiter 2 5) = Inr ([True, True, True, True], r))
    \<and> log_run 2 5 (\<lambda>_. []) [(4, k), (4, k), (9, k), (8, k)] = [True, True, True, False]"
  by (simp add: sw_Allow_eq newSlidingWindowLimiter_def sane_def sw_stamps_def)

text \<open>The in-place compaction loop of both windows, which overwrites the array it ranges over,
  leaves in the prefix up to \<open>validIdx\<close> exactly the timestamps after the cut-off, in order.\<close>

lemma compaction_is_filter:
  "case compact_loop cutoff 0 (length ts) 0 ts of
     (validIdx, ts') \<Rightarrow> take validIdx ts' = filter (\<lambda>t. cutoff < t) ts \<and> length ts' = length ts"
  using compact_filter_aux [of 0 0 "length ts" ts cutoff] by auto

text \<open>C29: Token buckets are independent: in any interleaving of calls, the decisions for one key are
  those of one \<open>rate.Limiter\<close> of its own that was created with the configured rate and burst and
  saw only the calls of that key.\<close>

theorem token_bucket_isolation:
  "oks_of k calls (tb_run P calls (newTokenBucketLimiter r burst))
    = bucket_run P (calls_of k calls) (rp_New P r burst)"
  using tb_run_bucket [of k calls P "newTokenBucketLimiter r burst"]
  by (simp add: bucket_of_def newTokenBucketLimiter_def)

text \<open>\<open>Allow\<close> checks the tiers in order.  A NACK the IP bucket refuses leaves the sequence window
  untouched; one the sequence window refuses has already taken its IP token; the chain and group
  limiters are never changed.\<close>

lemma allow_tier_order:
  assumes "sane (sq_max (sequenceLim r))"
  shows "\<exists>ok lvl r'. Limiter_Allow P t1 t2 ip seq r = Inr ((ok, lvl), r')
    \<and> ipLimiter r' = snd (tb_Allow P t1 (IP_String ip) (ipLimiter r))
    \<and> chainLimiter r' = chainLimiter r \<and> groupLimiter r' = groupLimiter r
    \<and> (\<not> fst (tb_Allow P t1 (IP_String ip) (ipLimiter r)) \<longrightarrow>
         lvl = Some LevelIP \<and> \<not> ok \<and> sequenceLim r' = sequenceLim r)
    \<and> (fst (tb_Allow P t1 (IP_String ip) (ipLimiter r)) \<longrightarrow>
         sq_Allow t2 seq (sequenceLim r) = Inr (ok, sequenceLim r')
         \<and> lvl = (if ok then None else Some LevelSequence))"
  using sq_Allow_eq [OF assms, of t2 seq]
  by (auto simp: Limiter_Allow_def Let_def case_prod_beta)

text \<open>C30: Flows do not interfere.  The windows of the chain tier are one per source address and HashKey: a call for
  one pair leaves the timestamps of every other pair alone, whatever the addresses (the keys print addresses, and no two
  addresses of 16 bytes print alike); a zero HashKey is admitted and changes nothing.\<close>

theorem chain_flows_independent:
  assumes "sane (sw_max (chainLimiter r))" "length ip1 = 16" "length ip2 = 16" "(ip1, h1) \<noteq> (ip2, h2)"
  shows "\<exists>ok r'. AllowChain t ip1 h1 r = Inr (ok, r')
    \<and> sw_stamps (chainLimiter r') (chain_key ip2 h2) = sw_stamps (chainLimiter r) (chain_key ip2 h2)
    \<and> (h1 = 0 \<longrightarrow> ok \<and> r' = r)"
  using assms
  by (auto simp: AllowChain_def sw_Allow_eq Let_def sw_stamps_def chain_key_inject IP_String_inject)

theorem chain_flows_independent_witness:
  "\<exists>ok r'. AllowChain 0 IPv6unspecified 1 (Limiter_New (\<lambda>_. 0) \<lparr>IPRate = Fin 1, IPBurst = 1, SenderRate = Fin 0,
       SenderWindow = 0, ChainRate = Fin 2, ChainWindow = 0, SequenceMax = 3, SequenceWindow = 0,
       GroupRate = Fin 0, GroupBurst = 0\<rparr> :: unit Limiter) = Inr (ok, r')
    \<and> sw_stamps (chainLimiter r') (chain_key (replicate 16 7) 1) = []"
proof -
  let ?r = "Limiter_New (\<lambda>_. 0) \<lparr>IPRate = Fin 1, IPBurst = 1, SenderRate = Fin 0,
       SenderWindow = 0, ChainRate = Fin 2, ChainWindow = 0, SequenceMax = 3, SequenceWindow = 0,
       GroupRate = Fin 0, GroupBurst = 0\<rparr> :: unit Limiter"
  have sane: "sane (sw_max (chainLimiter ?r))"
    by (simp add: Limiter_New_def rl_normalise_def newSlidingWindowLimiter_def int_of_f64_def
        trunc_def int64_range_def sane_def Let_def)
  have "sw_stamps (chainLimiter ?r) k = []" for k
    by (simp add: Limiter_New_def newSlidingWindowLimiter_def sw_stamps_def Let_def)
  moreover have "length IPv6unspecified = 16" "length (replicate 16 (7 :: byte)) = 16" "IPv6unspecified \<noteq> replicate 16 7"
    by (simp_all add: IPv6unspecified_def)
  ultimately show ?thesis
    using chain_flows_independent [OF sane, of IPv6unspecified "replicate 16 7" 1 1 0] by auto
qed

text \<open>C31: A negative \<open>SequenceMax\<close> passes \<open>New\<close> unchecked, and the first NACK for a SeqNum that the
  IP tier lets through then panics the process.\<close>

theorem negative_sequence_max_panics:
  fixes P :: "'b rate_pkg"
  assumes "SequenceMax cfg < 0"
    and "fst (tb_Allow P t1 (IP_String ip) (ipLimiter (Limiter_New oob cfg)))"
  shows "Limiter_Allow P t1 t2 ip seq (Limiter_New oob cfg) = Inl MakeSliceCapOutOfRange"
proof -
  let ?r = "Limiter_New oob cfg :: 'b Limiter"
  have "sequenceLim ?r = newSequenceLimiter (SequenceMax cfg) (SequenceWindow (rl_normalise cfg))"
    by (simp add: Limiter_New_def rl_normalise_def Let_def)
  then have "sq_Allow t2 seq (sequenceLim ?r) = Inl MakeSliceCapOutOfRange"
    using assms(1) by (simp add: sq_Allow_new_negative)
  then show ?thesis using assms(2)
    by (simp add: Limiter_Allow_def case_prod_beta Let_def)
qed

theorem negative_sequence_max_panics_witness:
  "Limiter_Allow \<lparr>rp_New = \<lambda>_ b. b, rp_Allow = \<lambda>_ b. (0 < b, b - 1)\<rparr> 5 6 [] 7
      (Limiter_New (\<lambda>_. 0) \<lparr>IPRate = Fin 1, IPBurst = 1, SenderRate = Fin 0, SenderWindow = 0,
         ChainRate = Fin 0, ChainWindow = 0, SequenceMax = -1, SequenceWindow = 0,
         GroupRate = Fin 0, GroupBurst = 0\<rparr>) = Inl MakeSliceCapOutOfRange"
  by (rule negative_sequence_max_panics)
    (simp_all add: Limiter_New_def rl_normalise_def newTokenBucketLimiter_def tb_Allow_def Let_def)

end
