(* ===== verification/Nack_Server.thy ===== *)
theory Nack_Server
  imports Deps Metrics Rate_Limit Cache_Ops
begin

text \<open>
  The NACK server of \<open>src/server/server.go\<close>: the wire formats, validation, the handler \<open>processNACK\<close>
  with its four rate-limit tiers, the cache lookup, the retransmission and the ACK or MISS response.
  The cache and the retransmitter are interface values in the source; here they are the methods
  \<open>ne_Retrieve\<close> and \<open>ne_Retransmit\<close> over a backend state \<open>'x\<close> that both may share (with the Redis
  backend they use one client).  The recorder is shared with the retransmitter.

  The environment of one call holds the clock readings of the tiers and what \<open>WriteTo\<close> returns.
  Log output is not modelled.
\<close>

section \<open>Constants and state\<close>

definition NACKSize :: nat where "NACKSize = 64"

definition ResponseSize :: nat where "ResponseSize = 16"

definition msgTypeNACK :: byte where "msgTypeNACK = 0x10"

definition msgTypeMISS :: byte where "msgTypeMISS = 0x11"

definition msgTypeACK :: byte where "msgTypeACK = 0x12"

record server =
  sv_port :: int
  sv_bindAddr :: bytes
  sv_workers :: int
  sv_suppressACK :: bool
  sv_suppressMISS :: bool
  sv_shardEngine :: "shard_engine option"

definition server_New :: "int \<Rightarrow> int \<Rightarrow> server" where
  "server_New port workers = \<lparr>sv_port = port, sv_bindAddr = [], sv_workers = workers,
     sv_suppressACK = False, sv_suppressMISS = False, sv_shardEngine = None\<rparr>"

definition SetSuppressACK :: "bool \<Rightarrow> server \<Rightarrow> server" where
  "SetSuppressACK v s = s\<lparr>sv_suppressACK := v\<rparr>"

definition SetSuppressMISS :: "bool \<Rightarrow> server \<Rightarrow> server" where
  "SetSuppressMISS v s = s\<lparr>sv_suppressMISS := v\<rparr>"

definition SetBindAddr :: "bytes \<Rightarrow> server \<Rightarrow> server" where
  "SetBindAddr addr s = s\<lparr>sv_bindAddr := addr\<rparr>"

definition SetShardEngine :: "shard_engine \<Rightarrow> server \<Rightarrow> server" where
  "SetShardEngine e s = s\<lparr>sv_shardEngine := Some e\<rparr>"

record 'x nack_env =
  ne_tIP :: time
  ne_tSeq :: time
  ne_tChain :: time
  ne_tGroup :: time
  ne_Retrieve :: "bytes \<Rightarrow> 'x \<Rightarrow> (err + bytes option) \<times> 'x"
  ne_Retransmit :: "bytes \<Rightarrow> txid \<Rightarrow> recorder option \<Rightarrow> 'x \<Rightarrow> err option \<times> recorder option \<times> 'x"
  ne_WriteTo :: "bytes \<Rightarrow> udp_addr \<Rightarrow> err option"

record ('x, 'b) nack_world =
  nw_x :: 'x
  nw_lim :: "'b Limiter"
  nw_rec :: "recorder option"
  nw_sent :: "(udp_addr \<times> bytes) list"

section \<open>Validation and responses\<close>

definition validateNACK :: "frame_pkg \<Rightarrow> bytes \<Rightarrow> err option" where
  "validateNACK fp datagram =
     (if length datagram < NACKSize then Some (Err ''invalid NACK size'')
      else if Uint32 (sub datagram 0 4) \<noteq> fp_MagicBSV fp then Some (Err ''invalid magic'')
      else if datagram ! 6 \<noteq> msgTypeNACK then Some (Err ''invalid message type'')
      else None)"

definition response_bytes :: "frame_pkg \<Rightarrow> byte \<Rightarrow> byte \<Rightarrow> u64 \<Rightarrow> bytes" where
  "response_bytes fp msgType flags seqNum =
     PutUint64 ((PutUint16 (PutUint32 (replicate ResponseSize 0) 0 (fp_MagicBSV fp)) 4 (fp_ProtoVer fp))
       [6 := msgType, 7 := flags]) 8 seqNum"

definition sendResponse :: "frame_pkg \<Rightarrow> (bytes \<Rightarrow> udp_addr \<Rightarrow> err option) \<Rightarrow> udp_addr \<Rightarrow> byte \<Rightarrow> byte \<Rightarrow> u64
    \<Rightarrow> ('x, 'b) nack_world \<Rightarrow> ('x, 'b) nack_world" where
  "sendResponse fp wr src msgType flags seqNum w =
     (let buf = response_bytes fp msgType flags seqNum;
          label = (if msgType = msgTypeMISS then str ''miss'' else str ''ack'')
      in case wr buf src of
           Some e \<Rightarrow> w\<lparr>nw_rec := on_rec (rec_ResponseSendError label) (nw_rec w)\<rparr>
         | None \<Rightarrow> w\<lparr>nw_sent := nw_sent w @ [(src, buf)], nw_rec := on_rec (rec_ResponseSent label) (nw_rec w)\<rparr>)"

section \<open>The handler\<close>

text \<open>Tier 4 (group): whether the retransmission is throttled.\<close>

definition group_tier :: "'b rate_pkg \<Rightarrow> server \<Rightarrow> time \<Rightarrow> ip \<Rightarrow> txid \<Rightarrow> ('x, 'b) nack_world
    \<Rightarrow> bool \<times> ('x, 'b) nack_world" where
  "group_tier P sv t srcIP txID w =
     (case sv_shardEngine sv of
        None \<Rightarrow> (False, w)
      | Some e \<Rightarrow>
          let groupIdx = se_GroupIndex e txID;
              (ok, lim) = AllowGroup P t srcIP groupIdx (nw_lim w);
              w' = w\<lparr>nw_lim := lim\<rparr>
          in if \<not> ok then (True, w'\<lparr>nw_rec := on_rec (rec_RateLimitDrop (level_string LevelGroup)) (nw_rec w')\<rparr>)
             else (False, w'))"

text \<open>The TxID of a frame, bytes 8 to 39; zero for a shorter one.\<close>

definition frame_txid :: "bytes \<Rightarrow> txid" where
  "frame_txid raw = (if length raw \<ge> 40 then sub raw 8 40 else replicate 32 0)"

text \<open>A hit: group tier, retransmission, ACK.  A failed retransmission ends the handler.\<close>

definition serve_hit :: "frame_pkg \<Rightarrow> 'b rate_pkg \<Rightarrow> server \<Rightarrow> 'x nack_env \<Rightarrow> udp_addr option \<Rightarrow> ip \<Rightarrow> u64 \<Rightarrow> bytes
    \<Rightarrow> ('x, 'b) nack_world \<Rightarrow> ('x, 'b) nack_world" where
  "serve_hit fp P sv env src srcIP seqNum raw w0 =
     (let w1 = w0\<lparr>nw_rec := on_rec rec_CacheHit (nw_rec w0)\<rparr>;
          txID = frame_txid raw;
          (groupThrottled, w2) = group_tier P sv (ne_tGroup env) srcIP txID w1;
          (e, w3) = (if groupThrottled then (None, w2)
                     else let (e, rc, x) = ne_Retransmit env raw txID (nw_rec w2) (nw_x w2);
                              w' = w2\<lparr>nw_rec := rc, nw_x := x\<rparr>
                          in if e \<noteq> None then (e, w')
                             else (None, w'\<lparr>nw_rec := on_rec rec_Retransmit (nw_rec w')\<rparr>))
      in if e \<noteq> None then w3
         else if \<not> sv_suppressACK sv then
           (case src of None \<Rightarrow> w3 | Some a \<Rightarrow> sendResponse fp (ne_WriteTo env) a msgTypeACK 1 seqNum w3)
         else w3)"

text \<open>After the pre-lookup tiers: the cache lookup.\<close>

definition serve_nack :: "frame_pkg \<Rightarrow> 'b rate_pkg \<Rightarrow> server \<Rightarrow> 'x nack_env \<Rightarrow> udp_addr option \<Rightarrow> ip \<Rightarrow> u64 \<Rightarrow> u64
    \<Rightarrow> ('x, 'b) nack_world \<Rightarrow> ('x, 'b) nack_world" where
  "serve_nack fp P sv env src srcIP hashKey startSeq w0 =
     (let key = frame_key hashKey startSeq;
          (res, x) = ne_Retrieve env key (nw_x w0);
          w = w0\<lparr>nw_x := x\<rparr>
      in case res of
           Inl e \<Rightarrow> w\<lparr>nw_rec := on_rec rec_CacheError (nw_rec w)\<rparr>
         | Inr None \<Rightarrow>
             let w' = w\<lparr>nw_rec := on_rec rec_CacheMiss (nw_rec w)\<rparr>
             in if \<not> sv_suppressMISS sv then
                  (case src of None \<Rightarrow> w' | Some a \<Rightarrow> sendResponse fp (ne_WriteTo env) a msgTypeMISS 0 0 w')
                else w'
         | Inr (Some raw) \<Rightarrow> serve_hit fp P sv env src srcIP startSeq raw w)"

definition src_ip :: "udp_addr option \<Rightarrow> ip" where
  "src_ip src = (case src of Some a \<Rightarrow> ua_ip a | None \<Rightarrow> IPv6unspecified)"

definition processNACK :: "frame_pkg \<Rightarrow> 'b rate_pkg \<Rightarrow> server \<Rightarrow> 'x nack_env \<Rightarrow> bytes \<Rightarrow> udp_addr option
    \<Rightarrow> ('x, 'b) nack_world \<Rightarrow> panic + ('x, 'b) nack_world" where
  "processNACK fp P sv env datagram src w0 =
     (let w1 = w0\<lparr>nw_rec := on_rec rec_NACKRequest (nw_rec w0)\<rparr>
      in if validateNACK fp datagram \<noteq> None then Inr w1
         else let hashKey = Uint64 (sub datagram 8 16);
                  startSeq = Uint64 (sub datagram 16 24);
                  endSeq = Uint64 (sub datagram 24 32)
              in if endSeq \<noteq> startSeq then Inr w1
                 else let srcIP = src_ip src
                      in case Limiter_Allow P (ne_tIP env) (ne_tSeq env) srcIP startSeq (nw_lim w1) of
                           Inl p \<Rightarrow> Inl p
                         | Inr ((allowed, level), lim1) \<Rightarrow>
                             let w2 = w1\<lparr>nw_lim := lim1\<rparr>
                             in if \<not> allowed
                                then Inr (w2\<lparr>nw_rec := on_rec (rec_RateLimitDrop
                                       (case level of None \<Rightarrow> [] | Some l \<Rightarrow> level_string l)) (nw_rec w2)\<rparr>)
                                else (case AllowChain (ne_tChain env) srcIP hashKey (nw_lim w2) of
                                    Inl p \<Rightarrow> Inl p
                                  | Inr (ok, lim2) \<Rightarrow>
                                      let w3 = w2\<lparr>nw_lim := lim2\<rparr>
                                      in if \<not> ok
                                         then Inr (w3\<lparr>nw_rec := on_rec (rec_RateLimitDrop (level_string LevelChain)) (nw_rec w3)\<rparr>)
                                         else Inr (serve_nack fp P sv env src srcIP hashKey startSeq w3)))"

section \<open>Lemmas\<close>

text \<open>What the pre-lookup tiers decide: \<open>None\<close> admits, \<open>Some l\<close> is the refusing level.\<close>

definition pre_tiers :: "'b rate_pkg \<Rightarrow> 'x nack_env \<Rightarrow> ip \<Rightarrow> u64 \<Rightarrow> u64 \<Rightarrow> 'b Limiter
    \<Rightarrow> panic + (Level option option \<times> 'b Limiter)" where
  "pre_tiers P env srcIP hashKey seqNum lm =
     (case Limiter_Allow P (ne_tIP env) (ne_tSeq env) srcIP seqNum lm of
        Inl p \<Rightarrow> Inl p
      | Inr ((ok, level), lim1) \<Rightarrow>
          if \<not> ok then Inr (Some level, lim1)
          else (case AllowChain (ne_tChain env) srcIP hashKey lim1 of
              Inl p \<Rightarrow> Inl p
            | Inr (ok2, lim2) \<Rightarrow> Inr (if ok2 then None else Some (Some LevelChain), lim2)))"

text \<open>The fields a NACK carries.\<close>

abbreviation nack_hash :: "bytes \<Rightarrow> u64" where "nack_hash d \<equiv> Uint64 (sub d 8 16)"
abbreviation nack_start :: "bytes \<Rightarrow> u64" where "nack_start d \<equiv> Uint64 (sub d 16 24)"
abbreviation nack_end :: "bytes \<Rightarrow> u64" where "nack_end d \<equiv> Uint64 (sub d 24 32)"

text \<open>A NACK that reaches the lookup, and one that does not.\<close>

lemma processNACK_admitted:
  assumes "validateNACK fp d = None" "nack_end d = nack_start d"
    and "pre_tiers P env (src_ip src) (nack_hash d) (nack_start d) (nw_lim w) = Inr (None, lm)"
  shows "processNACK fp P sv env d src w = Inr (serve_nack fp P sv env src (src_ip src) (nack_hash d) (nack_start d)
    (w\<lparr>nw_rec := on_rec rec_NACKRequest (nw_rec w), nw_lim := lm\<rparr>))"
  using assms
  by (auto simp: processNACK_def pre_tiers_def Let_def split: sum.splits prod.splits if_splits)

lemma processNACK_refused:
  assumes "processNACK fp P sv env d src w = Inr w'"
    and "validateNACK fp d \<noteq> None \<or> nack_end d \<noteq> nack_start d
      \<or> (\<exists>l lm. pre_tiers P env (src_ip src) (nack_hash d) (nack_start d) (nw_lim w) = Inr (Some l, lm))"
  shows "nw_x w' = nw_x w \<and> nw_sent w' = nw_sent w"
  using assms
  by (auto simp: processNACK_def pre_tiers_def Let_def split: sum.splits prod.splits if_splits)

lemma processNACK_panics:
  "processNACK fp P sv env d src w = Inl p \<longleftrightarrow> validateNACK fp d = None \<and> nack_end d = nack_start d
    \<and> pre_tiers P env (src_ip src) (nack_hash d) (nack_start d) (nw_lim w) = Inl p"
  by (auto simp: processNACK_def pre_tiers_def Let_def split: sum.splits prod.splits if_splits)

text \<open>The key of the lookup is the 16 bytes of the datagram that hold HashKey and StartSeq.\<close>

lemma nack_lookup_key: "32 \<le> length d \<Longrightarrow> frame_key (nack_hash d) (nack_start d) = sub d 8 24"
  by (simp add: frame_key_eq be64_Uint64 sub_def)
    (metis (no_types, lifting) add.commute append_take_drop_id numeral_Bit0 drop_drop take_add)

text \<open>The handler returns either refused or from \<open>serve_nack\<close>.\<close>

lemma processNACK_cases:
  assumes "processNACK fp P sv env d src w = Inr w'"
  obtains (refused) "nw_x w' = nw_x w" "nw_sent w' = nw_sent w"
  | (admitted) lm where "validateNACK fp d = None" "nack_end d = nack_start d" "64 \<le> length d"
      "pre_tiers P env (src_ip src) (nack_hash d) (nack_start d) (nw_lim w) = Inr (None, lm)"
      "w' = serve_nack fp P sv env src (src_ip src) (nack_hash d) (nack_start d)
         (w\<lparr>nw_rec := on_rec rec_NACKRequest (nw_rec w), nw_lim := lm\<rparr>)"
proof (cases "validateNACK fp d = None \<and> nack_end d = nack_start d
    \<and> (\<forall>l lm. pre_tiers P env (src_ip src) (nack_hash d) (nack_start d) (nw_lim w) \<noteq> Inr (Some l, lm))")
  case True
  then have v: "validateNACK fp d = None" "nack_end d = nack_start d" by blast+
  have len: "64 \<le> length d" using v(1) by (auto simp: validateNACK_def NACKSize_def split: if_splits)
  show thesis
  proof (cases "pre_tiers P env (src_ip src) (nack_hash d) (nack_start d) (nw_lim w)")
    case (Inl p)
    then show thesis using v assms processNACK_panics [of fp P sv env d src w p] by simp
  next
    case (Inr b)
    then obtain lm where lm: "pre_tiers P env (src_ip src) (nack_hash d) (nack_start d) (nw_lim w) = Inr (None, lm)"
      using True by (metis option.exhaust prod.exhaust)
    then show thesis using admitted [OF v len lm] processNACK_admitted [OF v lm] assms by simp
  qed
next
  case False
  then show thesis using processNACK_refused [OF assms] refused by auto
qed

text \<open>The group tier changes its limiter and, on a refusal, the recorder.\<close>

definition throttles :: "'b rate_pkg \<Rightarrow> server \<Rightarrow> time \<Rightarrow> ip \<Rightarrow> txid \<Rightarrow> 'b Limiter \<Rightarrow> bool" where
  "throttles P sv t i x lm = (case sv_shardEngine sv of None \<Rightarrow> False
     | Some e \<Rightarrow> \<not> fst (AllowGroup P t i (se_GroupIndex e x) lm))"

lemma group_tier_frame:
  "fst (group_tier P sv t i x w) = throttles P sv t i x (nw_lim w)"
  "nw_x (snd (group_tier P sv t i x w)) = nw_x w"
  "nw_sent (snd (group_tier P sv t i x w)) = nw_sent w"
  "\<not> throttles P sv t i x (nw_lim w) \<Longrightarrow> nw_rec (snd (group_tier P sv t i x w)) = nw_rec w"
  by (auto simp: group_tier_def throttles_def Let_def split: option.split prod.split)

text \<open>What one response adds to the datagrams sent.\<close>

definition respond :: "frame_pkg \<Rightarrow> (bytes \<Rightarrow> udp_addr \<Rightarrow> err option) \<Rightarrow> udp_addr option \<Rightarrow> bytes \<Rightarrow> (udp_addr \<times> bytes) list" where
  "respond fp wr src buf = (case src of None \<Rightarrow> [] | Some a \<Rightarrow> if wr buf a = None then [(a, buf)] else [])"

lemma sendResponse_sent:
  "nw_sent (sendResponse fp wr a ty fl sq w) = nw_sent w @ respond fp wr (Some a) (response_bytes fp ty fl sq)"
  "nw_x (sendResponse fp wr a ty fl sq w) = nw_x w"
  "nw_lim (sendResponse fp wr a ty fl sq w) = nw_lim w"
  by (auto simp: sendResponse_def respond_def Let_def split: option.split)

lemma respond_cases: "respond fp wr src buf = [] \<or> (\<exists>a. src = Some a \<and> respond fp wr src buf = [(a, buf)])"
  by (auto simp: respond_def split: option.split)

lemma serve_hit_outcome:
  assumes "ne_Retransmit env raw (frame_txid raw) (on_rec rec_CacheHit (nw_rec w)) (nw_x w) = (e, rc, x)"
    and "throttled = throttles P sv (ne_tGroup env) i (frame_txid raw) (nw_lim w)"
  shows "nw_x (serve_hit fp P sv env src i q raw w) = (if throttled then nw_x w else x)
    \<and> nw_sent (serve_hit fp P sv env src i q raw w) = nw_sent w @
        (if (throttled \<or> e = None) \<and> \<not> sv_suppressACK sv
         then respond fp (ne_WriteTo env) src (response_bytes fp msgTypeACK 1 q) else [])"
proof -
  let ?w1 = "w\<lparr>nw_rec := on_rec rec_CacheHit (nw_rec w)\<rparr>"
  obtain th w2 where g: "group_tier P sv (ne_tGroup env) i (frame_txid raw) ?w1 = (th, w2)" by fastforce
  have "th = throttled" "nw_x w2 = nw_x w" "nw_sent w2 = nw_sent w" "\<not> throttled \<longrightarrow> nw_rec w2 = nw_rec ?w1"
    using group_tier_frame [of P sv "ne_tGroup env" i "frame_txid raw" ?w1] g assms(2) by auto
  then show ?thesis using assms(1)
    by (auto simp: serve_hit_def g Let_def sendResponse_sent split: option.split)
      (simp_all add: respond_def)
qed

lemma serve_nack_outcome:
  "nw_sent (serve_nack fp P sv env src i h q w) =
     (case ne_Retrieve env (frame_key h q) (nw_x w) of
        (Inl e, x) \<Rightarrow> nw_sent w
      | (Inr None, x) \<Rightarrow> nw_sent w @ (if sv_suppressMISS sv then []
           else respond fp (ne_WriteTo env) src (response_bytes fp msgTypeMISS 0 0))
      | (Inr (Some raw), x) \<Rightarrow> nw_sent (serve_hit fp P sv env src i q raw (w\<lparr>nw_x := x\<rparr>)))"
  by (auto simp: serve_nack_def Let_def sendResponse_sent split: option.split prod.split sum.split)
    (simp_all add: respond_def)

text \<open>Limiters whose windows can be allocated keep that through every handler run.\<close>

definition limiter_sane :: "'b Limiter \<Rightarrow> bool" where
  "limiter_sane lm \<longleftrightarrow> sane (sq_max (sequenceLim lm)) \<and> sane (sw_max (chainLimiter lm))"

lemma pre_tiers_sane:
  "limiter_sane lm \<Longrightarrow> \<exists>res lm'. pre_tiers P env i h q lm = Inr (res, lm') \<and> limiter_sane lm'"
  by (auto simp: pre_tiers_def Limiter_Allow_def AllowChain_def limiter_sane_def sq_Allow_eq sw_Allow_eq
      Let_def case_prod_beta)

lemma group_tier_sane:
  "limiter_sane (nw_lim (snd (group_tier P sv t i x w))) = limiter_sane (nw_lim w)"
  by (auto simp: group_tier_def AllowGroup_def limiter_sane_def Let_def split: option.split prod.split)

lemma serve_hit_sane:
  "limiter_sane (nw_lim (serve_hit fp P sv env src i q raw w)) = limiter_sane (nw_lim w)"
  using group_tier_sane [of P sv "ne_tGroup env" i "frame_txid raw" "w\<lparr>nw_rec := on_rec rec_CacheHit (nw_rec w)\<rparr>"]
  by (auto simp: serve_hit_def Let_def sendResponse_sent split: option.split prod.split if_splits)

lemma serve_nack_sane:
  "limiter_sane (nw_lim (serve_nack fp P sv env src i h q w)) = limiter_sane (nw_lim w)"
  by (auto simp: serve_nack_def serve_hit_sane Let_def sendResponse_sent split: option.split prod.split sum.split)

lemma processNACK_lim:
  assumes "processNACK fp P sv env d src w = Inr w'" "limiter_sane (nw_lim w)"
  shows "limiter_sane (nw_lim w')"
proof -
  let ?w1 = "w\<lparr>nw_rec := on_rec rec_NACKRequest (nw_rec w)\<rparr>"
  obtain res lm where t: "pre_tiers P env (src_ip src) (nack_hash d) (nack_start d) (nw_lim w) = Inr (res, lm)"
    "limiter_sane lm" using pre_tiers_sane [OF assms(2)] by blast
  then show ?thesis
    using assms serve_nack_sane [of fp P sv env src "src_ip src" "nack_hash d" "nack_start d" "?w1\<lparr>nw_lim := lm\<rparr>"]
    by (auto simp: processNACK_def pre_tiers_def Let_def split: sum.splits prod.splits if_splits)
qed

text \<open>No NACK can panic the handler while the limiter's maxima are allocatable.\<close>

lemma processNACK_total:
  assumes "limiter_sane (nw_lim w)"
  shows "\<exists>w'. processNACK fp P sv env d src w = Inr w' \<and> limiter_sane (nw_lim w')"
proof (cases "processNACK fp P sv env d src w")
  case (Inl p)
  then show ?thesis using pre_tiers_sane [OF assms] by (metis processNACK_panics Inl_Inr_False)
next
  case (Inr w')
  then show ?thesis using assms processNACK_lim by blast
qed

section \<open>An example request\<close>

text \<open>A NACK for one frame, a token bucket that counts down, and a limiter and an environment built from
  them, for the witnesses.\<close>

definition ex_nack :: "u64 \<Rightarrow> u64 \<Rightarrow> bytes" where
  "ex_nack h q = be32 0xE3E1F3E8 @ be16 0x02BF @ [0x10, 0] @ be64 h @ be64 q @ be64 q @ replicate 32 0"

definition ex_rate :: "int rate_pkg" where
  "ex_rate = \<lparr>rp_New = \<lambda>_ b. b, rp_Allow = \<lambda>_ b. (0 < b, b - 1)\<rparr>"

definition ex_limiter :: "int \<Rightarrow> int Limiter" where
  "ex_limiter n = \<lparr>ipLimiter = newTokenBucketLimiter (Fin 1) n, chainLimiter = newSlidingWindowLimiter 5 minute,
     sequenceLim = newSequenceLimiter 3 minute, groupLimiter = newTokenBucketLimiter (Fin 1) 0\<rparr>"

definition ex_env :: "bytes option \<Rightarrow> unit nack_env" where
  "ex_env raw = \<lparr>ne_tIP = 0, ne_tSeq = 0, ne_tChain = 0, ne_tGroup = 0,
     ne_Retrieve = \<lambda>k x. (Inr raw, x), ne_Retransmit = \<lambda>raw t rc x. (None, rc, x), ne_WriteTo = \<lambda>b a. None\<rparr>"

definition ex_world :: "int \<Rightarrow> (unit, int) nack_world" where
  "ex_world n = \<lparr>nw_x = (), nw_lim = ex_limiter n, nw_rec = None, nw_sent = []\<rparr>"

lemma ex_nack_fields:
  "length (ex_nack h q) = 64" "nack_hash (ex_nack h q) = h" "nack_start (ex_nack h q) = q" "nack_end (ex_nack h q) = q"
  "validateNACK ex_frame (ex_nack h q) = None"
proof -
  have "sub (ex_nack h q) 0 4 = be32 0xE3E1F3E8" "ex_nack h q ! 6 = 0x10" "length (ex_nack h q) = 64"
    by (simp_all add: ex_nack_def sub_def nth_append)
  then show "validateNACK ex_frame (ex_nack h q) = None" "length (ex_nack h q) = 64"
    by (simp_all add: validateNACK_def NACKSize_def msgTypeNACK_def ex_frame_def)
qed (simp_all add: ex_nack_def sub_def)

lemma ex_pre_tiers:
  "0 < n \<Longrightarrow> \<exists>lm. pre_tiers ex_rate env i h q (ex_limiter n) = Inr (None, lm) \<and> limiter_sane lm
    \<and> groupLimiter lm = newTokenBucketLimiter (Fin 1) 0"
  by (simp add: pre_tiers_def Limiter_Allow_def tb_Allow_def AllowChain_def sq_Allow_eq sw_Allow_eq
      ex_rate_def ex_limiter_def newTokenBucketLimiter_def newSequenceLimiter_def newSlidingWindowLimiter_def
      sane_def sq_stamps_def sw_stamps_def limiter_sane_def Let_def)

section \<open>Properties\<close>

text \<open>A response is 16 bytes and decodes to the fields it was built from: magic, protocol version,
  message type, flags and sequence number.\<close>

lemma response_roundtrip:
  "length (response_bytes fp ty fl q) = 16
   \<and> Uint32 (sub (response_bytes fp ty fl q) 0 4) = fp_MagicBSV fp
   \<and> Uint16 (sub (response_bytes fp ty fl q) 4 6) = fp_ProtoVer fp
   \<and> response_bytes fp ty fl q ! 6 = ty \<and> response_bytes fp ty fl q ! 7 = fl
   \<and> Uint64 (sub (response_bytes fp ty fl q) 8 16) = q"
proof -
  have "response_bytes fp ty fl q = be32 (fp_MagicBSV fp) @ be16 (fp_ProtoVer fp) @ [ty, fl] @ be64 q"
    by (simp add: response_bytes_def ResponseSize_def PutUint64_def PutUint32_def PutUint16_def put_at_def
        be16_def be32_def numeral_eq_Suc)
  then show ?thesis by (simp add: sub_def nth_append)
qed

text \<open>C2: Every answer is honest.  One NACK adds at most one datagram, to its sender.  That datagram is a
  MISS only when the cache answered the lookup of the 16 key bytes of the NACK with nothing, and an ACK
  with the requested SeqNum only when the cache had the frame and either the retransmission of exactly
  that frame reported no error or the group tier, asked after all other tiers, held it back.  A cache
  error is never answered.\<close>

theorem nack_answers_honestly:
  assumes "processNACK fp P sv env d src w = Inr w'"
  shows "nw_sent w' = nw_sent w \<or>
    (\<exists>a buf lm. src = Some a \<and> nw_sent w' = nw_sent w @ [(a, buf)] \<and> validateNACK fp d = None
      \<and> pre_tiers P env (src_ip src) (nack_hash d) (nack_start d) (nw_lim w) = Inr (None, lm)
      \<and> (case ne_Retrieve env (sub d 8 24) (nw_x w) of
           (Inl e, x) \<Rightarrow> False
         | (Inr None, x) \<Rightarrow> \<not> sv_suppressMISS sv \<and> buf = response_bytes fp msgTypeMISS 0 0
         | (Inr (Some raw), x) \<Rightarrow> \<not> sv_suppressACK sv \<and> buf = response_bytes fp msgTypeACK 1 (nack_start d)
             \<and> (throttles P sv (ne_tGroup env) (src_ip src) (frame_txid raw) lm
                \<or> fst (ne_Retransmit env raw (frame_txid raw)
                    (on_rec rec_CacheHit (on_rec rec_NACKRequest (nw_rec w))) x) = None)))"
  using assms
proof (cases rule: processNACK_cases)
  case refused
  then show ?thesis by simp
next
  case (admitted lm)
  let ?w = "w\<lparr>nw_rec := on_rec rec_NACKRequest (nw_rec w), nw_lim := lm\<rparr>"
  obtain res x where look: "ne_Retrieve env (sub d 8 24) (nw_x w) = (res, x)" by fastforce
  have out: "nw_sent w' = (case (res, x) of (Inl e, x) \<Rightarrow> nw_sent w
      | (Inr None, x) \<Rightarrow> nw_sent w @ (if sv_suppressMISS sv then []
           else respond fp (ne_WriteTo env) src (response_bytes fp msgTypeMISS 0 0))
      | (Inr (Some raw), x) \<Rightarrow> nw_sent (serve_hit fp P sv env src (src_ip src) (nack_start d) raw (?w\<lparr>nw_x := x\<rparr>)))"
    unfolding admitted(5) serve_nack_outcome using admitted(3)
    by (simp add: nack_lookup_key look split: sum.split option.split)
  show ?thesis
  proof (cases "\<exists>raw. res = Inr (Some raw)")
    case True
    then obtain raw where raw: "res = Inr (Some raw)" ..
    obtain e rc y where r: "ne_Retransmit env raw (frame_txid raw)
        (on_rec rec_CacheHit (nw_rec (?w\<lparr>nw_x := x\<rparr>))) (nw_x (?w\<lparr>nw_x := x\<rparr>)) = (e, rc, y)"
      by (metis prod.exhaust_sel)
    from serve_hit_outcome [where fp = fp and P = P and sv = sv and i = "src_ip src" and src = src
        and q = "nack_start d", OF r refl] show ?thesis
      using admitted look out raw r
        respond_cases [of fp "ne_WriteTo env" src "response_bytes fp msgTypeACK 1 (nack_start d)"]
      by (auto split: if_splits)
  next
    case False
    then show ?thesis
      using admitted look out respond_cases [of fp "ne_WriteTo env" src "response_bytes fp msgTypeMISS 0 0"]
      by (cases res) (auto split: if_splits option.splits)
  qed
qed

theorem nack_answers_honestly_witness:
  "\<exists>w'. processNACK ex_frame ex_rate (server_New 9300 4) (ex_env None) (ex_nack 7 9)
      (Some \<lparr>ua_ip = replicate 16 1, ua_port = 5\<rparr>) (ex_world 2) = Inr w'
    \<and> nw_sent w' = [(\<lparr>ua_ip = replicate 16 1, ua_port = 5\<rparr>, response_bytes ex_frame msgTypeMISS 0 0)]"
proof -
  let ?a = "\<lparr>ua_ip = replicate 16 1, ua_port = 5\<rparr>"
  obtain lm where lm: "pre_tiers ex_rate (ex_env None) (src_ip (Some ?a)) 7 9 (ex_limiter 2) = Inr (None, lm)"
    using ex_pre_tiers [of 2] by fastforce
  define w' where "w' = serve_nack ex_frame ex_rate (server_New 9300 4) (ex_env None) (Some ?a) (src_ip (Some ?a)) 7 9
      (ex_world 2\<lparr>nw_rec := on_rec rec_NACKRequest (nw_rec (ex_world 2)), nw_lim := lm\<rparr>)"
  have run: "processNACK ex_frame ex_rate (server_New 9300 4) (ex_env None) (ex_nack 7 9) (Some ?a) (ex_world 2) = Inr w'"
    using processNACK_admitted [of ex_frame "ex_nack 7 9" ex_rate "ex_env None" "Some ?a" "ex_world 2" lm] lm
    by (simp add: ex_nack_fields w'_def) (simp add: ex_world_def)
  have "nw_sent w' \<noteq> nw_sent (ex_world 2)"
    by (simp add: w'_def serve_nack_outcome ex_env_def server_New_def respond_def)
  then show ?thesis
    using nack_answers_honestly [OF run] run by (auto simp: ex_env_def) (simp add: ex_world_def)
qed

text \<open>C24: A NACK that is malformed, asks for a range, or is refused by a tier before the lookup reaches
  neither the cache nor the retransmitter, and gets no answer.\<close>

theorem nack_refused_silently:
  assumes "processNACK fp P sv env d src w = Inr w'"
    and "validateNACK fp d \<noteq> None \<or> nack_end d \<noteq> nack_start d
      \<or> (\<exists>l lm. Limiter_Allow P (ne_tIP env) (ne_tSeq env) (src_ip src) (nack_start d) (nw_lim w) = Inr ((False, l), lm))
      \<or> (\<exists>l lm lm'. Limiter_Allow P (ne_tIP env) (ne_tSeq env) (src_ip src) (nack_start d) (nw_lim w) = Inr ((True, l), lm)
           \<and> AllowChain (ne_tChain env) (src_ip src) (nack_hash d) lm = Inr (False, lm'))"
  shows "nw_x w' = nw_x w \<and> nw_sent w' = nw_sent w"
  using assms by (intro processNACK_refused [OF assms(1)]) (auto simp: pre_tiers_def)

theorem nack_refused_silently_witness:
  "\<exists>w'. processNACK ex_frame ex_rate (server_New 9300 4) (ex_env None) (ex_nack 7 9) None (ex_world 0) = Inr w'
    \<and> nw_sent w' = []"
proof -
  have lim: "\<exists>lm. Limiter_Allow ex_rate 0 0 i q (ex_limiter 0) = Inr ((False, Some LevelIP), lm)" for i q
    by (simp add: Limiter_Allow_def tb_Allow_def ex_rate_def ex_limiter_def newTokenBucketLimiter_def Let_def)
  obtain lm where lm: "Limiter_Allow ex_rate 0 0 (src_ip None) 9 (ex_limiter 0) = Inr ((False, Some LevelIP), lm)"
    using lim by blast
  then obtain w' where run: "processNACK ex_frame ex_rate (server_New 9300 4) (ex_env None) (ex_nack 7 9) None (ex_world 0) = Inr w'"
    by (simp add: processNACK_def ex_nack_fields Let_def ex_env_def ex_world_def)
  have env: "ne_tIP (ex_env None) = 0" "ne_tSeq (ex_env None) = 0" "nw_lim (ex_world 0) = ex_limiter 0"
    by (simp_all add: ex_env_def ex_world_def)
  have "nw_sent w' = nw_sent (ex_world 0)"
    using nack_refused_silently [OF run] lm by (simp only: ex_nack_fields env) blast
  then show ?thesis using run by (simp add: ex_world_def)
qed

text \<open>C25: A frame that is in the cache but throttled by the group tier is not retransmitted (the backend
  is left as the lookup left it), and is still acknowledged with its SeqNum.\<close>

theorem nack_throttled_still_acked:
  assumes "validateNACK fp d = None" "nack_end d = nack_start d"
    and "pre_tiers P env (src_ip (Some a)) (nack_hash d) (nack_start d) (nw_lim w) = Inr (None, lm)"
    and "ne_Retrieve env (sub d 8 24) (nw_x w) = (Inr (Some raw), x)"
    and "sv_shardEngine sv = Some e"
    and "\<not> fst (AllowGroup P (ne_tGroup env) (ua_ip a) (se_GroupIndex e (frame_txid raw)) lm)"
    and "\<not> sv_suppressACK sv" "\<And>b. ne_WriteTo env b a = None"
  shows "\<exists>w'. processNACK fp P sv env d (Some a) w = Inr w' \<and> nw_x w' = x
    \<and> nw_sent w' = nw_sent w @ [(a, response_bytes fp msgTypeACK 1 (nack_start d))]"
proof -
  let ?w = "w\<lparr>nw_rec := on_rec rec_NACKRequest (nw_rec w), nw_lim := lm, nw_x := x\<rparr>"
  have len: "32 \<le> length d" using assms(1) by (auto simp: validateNACK_def NACKSize_def split: if_splits)
  have "throttles P sv (ne_tGroup env) (ua_ip a) (frame_txid raw) lm"
    using assms(5,6) by (simp add: throttles_def)
  moreover obtain e rc y where "ne_Retransmit env raw (frame_txid raw) (on_rec rec_CacheHit (nw_rec ?w)) (nw_x ?w) = (e, rc, y)"
    by (metis prod.exhaust_sel)
  ultimately have "nw_x (serve_hit fp P sv env (Some a) (ua_ip a) (nack_start d) raw ?w) = x"
    "nw_sent (serve_hit fp P sv env (Some a) (ua_ip a) (nack_start d) raw ?w)
      = nw_sent w @ [(a, response_bytes fp msgTypeACK 1 (nack_start d))]"
    using serve_hit_outcome [where w = ?w and throttled = True and fp = fp and P = P and sv = sv
        and i = "ua_ip a" and src = "Some a" and q = "nack_start d" and raw = raw and env = env] assms(7,8)
    by (simp_all add: respond_def)
  then show ?thesis
    using processNACK_admitted [OF assms(1-3)] assms(4) len
    by (simp add: serve_nack_def nack_lookup_key src_ip_def)
qed

theorem nack_throttled_still_acked_witness:
  "\<exists>w'. processNACK ex_frame ex_rate (SetShardEngine (ex_engine 0xFF05 11 8) (server_New 9300 4))
      (ex_env (Some [1])) (ex_nack 7 9) (Some \<lparr>ua_ip = [], ua_port = 5\<rparr>) (ex_world 2) = Inr w'
    \<and> nw_sent w' = [(\<lparr>ua_ip = [], ua_port = 5\<rparr>, response_bytes ex_frame msgTypeACK 1 9)]"
proof -
  let ?a = "\<lparr>ua_ip = [], ua_port = 5\<rparr>"
  let ?sv = "SetShardEngine (ex_engine 0xFF05 11 8) (server_New 9300 4)"
  obtain lm where lm: "pre_tiers ex_rate (ex_env (Some [1])) (src_ip (Some ?a)) 7 9 (ex_limiter 2) = Inr (None, lm)"
    "groupLimiter lm = newTokenBucketLimiter (Fin 1) 0" using ex_pre_tiers [of 2] by fastforce
  have "\<not> fst (AllowGroup ex_rate t i g lm)" for t i g
    using lm(2) by (simp add: AllowGroup_def tb_Allow_def newTokenBucketLimiter_def ex_rate_def Let_def)
  then have "\<exists>w'. processNACK ex_frame ex_rate ?sv (ex_env (Some [1])) (ex_nack 7 9) (Some ?a) (ex_world 2) = Inr w'
      \<and> nw_x w' = () \<and> nw_sent w' = nw_sent (ex_world 2) @ [(?a, response_bytes ex_frame msgTypeACK 1 (nack_start (ex_nack 7 9)))]"
    using lm(1) by (intro nack_throttled_still_acked [where lm = lm and raw = "[1]" and e = "ex_engine 0xFF05 11 8"])
      (simp_all add: ex_nack_fields, simp_all add: ex_world_def ex_env_def SetShardEngine_def server_New_def)
  then show ?thesis by (simp add: ex_nack_fields) (simp add: ex_world_def)
qed

end
