(* ===== verification/Nack_Steps.thy ===== *)
theory Nack_Steps
  imports Nack_Server
begin

text \<open>
  The handler \<open>processNACK\<close> of \<open>src/server/server.go\<close> as its goroutine executes it beside others: a program
  counter and one step per access to shared state.  Each step is one critical section of the source (the map
  of a token bucket, the bucket itself, a window, the cache, the retransmitter) or one write to the
  socket; between two of them any step of another goroutine may happen.  What the environment gives
  (clock readings, results of the cache, the retransmitter and the socket) is chosen anew for every step.

  The last section shows that a handler that runs alone does exactly what \<open>processNACK\<close> does.
\<close>

section \<open>Token bucket in two critical sections\<close>

text \<open>\<open>Allow\<close> of the token bucket locks the map only to find or create the key's \<open>rate.Limiter\<close>, which
  then locks itself; a key is never removed from the map.\<close>

definition tb_get :: "'b rate_pkg \<Rightarrow> bytes \<Rightarrow> 'b tokenBucketLimiter \<Rightarrow> 'b tokenBucketLimiter" where
  "tb_get P key t = (case map_of (tb_limit t) key of
     Some l \<Rightarrow> t
   | None \<Rightarrow> t\<lparr>tb_limit := AList.update key (rp_New P (tb_r t) (tb_burst t)) (tb_limit t)\<rparr>)"

definition tb_take :: "'b rate_pkg \<Rightarrow> time \<Rightarrow> bytes \<Rightarrow> 'b tokenBucketLimiter \<Rightarrow> bool \<times> 'b tokenBucketLimiter" where
  "tb_take P now key t =
     (let (ok, l') = rp_Allow P now (the (map_of (tb_limit t) key))
      in (ok, t\<lparr>tb_limit := AList.update key l' (tb_limit t)\<rparr>))"

section \<open>Program counter\<close>

text \<open>The local variables of a handler after validation.\<close>

record nack_job =
  nj_src :: "udp_addr option"
  nj_ip :: ip
  nj_hash :: u64
  nj_seq :: u64

datatype nack_pc =
    NRecv bytes "udp_addr option"
  | NIPGet nack_job
  | NIPTake nack_job
  | NSeq nack_job
  | NChain nack_job
  | NLookup nack_job
  | NGroupGet nack_job bytes shard_engine
  | NGroupTake nack_job bytes shard_engine
  | NRetransmit nack_job bytes
  | NReply udp_addr byte byte u64

text \<open>What follows a hit that was served or throttled.\<close>

definition ack_pc :: "server \<Rightarrow> nack_job \<Rightarrow> nack_pc option" where
  "ack_pc sv j = (if \<not> sv_suppressACK sv
     then (case nj_src j of None \<Rightarrow> None | Some a \<Rightarrow> Some (NReply a msgTypeACK 1 (nj_seq j))) else None)"

definition miss_pc :: "server \<Rightarrow> nack_job \<Rightarrow> nack_pc option" where
  "miss_pc sv j = (if \<not> sv_suppressMISS sv
     then (case nj_src j of None \<Rightarrow> None | Some a \<Rightarrow> Some (NReply a msgTypeMISS 0 0)) else None)"

definition drop_at :: "Level \<Rightarrow> ('x, 'b) nack_world \<Rightarrow> ('x, 'b) nack_world" where
  "drop_at l w = w\<lparr>nw_rec := on_rec (rec_RateLimitDrop (level_string l)) (nw_rec w)\<rparr>"

section \<open>Steps\<close>

text \<open>One step: the panic, or where the handler continues (\<open>None\<close> when it has returned) and the state.\<close>

fun nack_step :: "frame_pkg \<Rightarrow> 'b rate_pkg \<Rightarrow> server \<Rightarrow> 'x nack_env \<Rightarrow> nack_pc \<Rightarrow> ('x, 'b) nack_world
    \<Rightarrow> panic + (nack_pc option \<times> ('x, 'b) nack_world)" where
  "nack_step fp P sv env (NRecv d src) w =
     (let w1 = w\<lparr>nw_rec := on_rec rec_NACKRequest (nw_rec w)\<rparr>
      in if validateNACK fp d \<noteq> None then Inr (None, w1)
         else if Uint64 (sub d 24 32) \<noteq> Uint64 (sub d 16 24) then Inr (None, w1)
         else Inr (Some (NIPGet \<lparr>nj_src = src, nj_ip = src_ip src, nj_hash = Uint64 (sub d 8 16),
                nj_seq = Uint64 (sub d 16 24)\<rparr>), w1))"
| "nack_step fp P sv env (NIPGet j) w =
     Inr (Some (NIPTake j), w\<lparr>nw_lim := (nw_lim w)\<lparr>ipLimiter := tb_get P (IP_String (nj_ip j)) (ipLimiter (nw_lim w))\<rparr>\<rparr>)"
| "nack_step fp P sv env (NIPTake j) w =
     (let (ok, t) = tb_take P (ne_tIP env) (IP_String (nj_ip j)) (ipLimiter (nw_lim w));
          w1 = w\<lparr>nw_lim := (nw_lim w)\<lparr>ipLimiter := t\<rparr>\<rparr>
      in if \<not> ok then Inr (None, drop_at LevelIP w1) else Inr (Some (NSeq j), w1))"
| "nack_step fp P sv env (NSeq j) w =
     (case sq_Allow (ne_tSeq env) (nj_seq j) (sequenceLim (nw_lim w)) of
        Inl p \<Rightarrow> Inl p
      | Inr (ok, sq) \<Rightarrow>
          let w1 = w\<lparr>nw_lim := (nw_lim w)\<lparr>sequenceLim := sq\<rparr>\<rparr>
          in if \<not> ok then Inr (None, drop_at LevelSequence w1) else Inr (Some (NChain j), w1))"
| "nack_step fp P sv env (NChain j) w =
     (case AllowChain (ne_tChain env) (nj_ip j) (nj_hash j) (nw_lim w) of
        Inl p \<Rightarrow> Inl p
      | Inr (ok, lm) \<Rightarrow>
          let w1 = w\<lparr>nw_lim := lm\<rparr>
          in if \<not> ok then Inr (None, drop_at LevelChain w1) else Inr (Some (NLookup j), w1))"
| "nack_step fp P sv env (NLookup j) w =
     (let (res, x) = ne_Retrieve env (frame_key (nj_hash j) (nj_seq j)) (nw_x w);
          w1 = w\<lparr>nw_x := x\<rparr>
      in case res of
           Inl e \<Rightarrow> Inr (None, w1\<lparr>nw_rec := on_rec rec_CacheError (nw_rec w1)\<rparr>)
         | Inr None \<Rightarrow> Inr (miss_pc sv j, w1\<lparr>nw_rec := on_rec rec_CacheMiss (nw_rec w1)\<rparr>)
         | Inr (Some raw) \<Rightarrow>
             Inr (Some (case sv_shardEngine sv of None \<Rightarrow> NRetransmit j raw | Some e \<Rightarrow> NGroupGet j raw e),
                  w1\<lparr>nw_rec := on_rec rec_CacheHit (nw_rec w1)\<rparr>))"
| "nack_step fp P sv env (NGroupGet j raw e) w =
     Inr (Some (NGroupTake j raw e), w\<lparr>nw_lim := (nw_lim w)\<lparr>groupLimiter :=
       tb_get P (group_key (nj_ip j) (se_GroupIndex e (frame_txid raw))) (groupLimiter (nw_lim w))\<rparr>\<rparr>)"
| "nack_step fp P sv env (NGroupTake j raw e) w =
     (let (ok, t) = tb_take P (ne_tGroup env) (group_key (nj_ip j) (se_GroupIndex e (frame_txid raw))) (groupLimiter (nw_lim w));
          w1 = w\<lparr>nw_lim := (nw_lim w)\<lparr>groupLimiter := t\<rparr>\<rparr>
      in if \<not> ok then Inr (ack_pc sv j, drop_at LevelGroup w1) else Inr (Some (NRetransmit j raw), w1))"
| "nack_step fp P sv env (NRetransmit j raw) w =
     (let (e, rc, x) = ne_Retransmit env raw (frame_txid raw) (nw_rec w) (nw_x w);
          w1 = w\<lparr>nw_rec := rc, nw_x := x\<rparr>
      in if e \<noteq> None then Inr (None, w1)
         else Inr (ack_pc sv j, w1\<lparr>nw_rec := on_rec rec_Retransmit (nw_rec w1)\<rparr>))"
| "nack_step fp P sv env (NReply a ty fl q) w = Inr (None, sendResponse fp (ne_WriteTo env) a ty fl q w)"

text \<open>A handler that runs alone, for at most \<open>n\<close> steps; \<open>None\<close> when it has not returned by then.\<close>

fun nack_exec :: "frame_pkg \<Rightarrow> 'b rate_pkg \<Rightarrow> server \<Rightarrow> 'x nack_env \<Rightarrow> nat \<Rightarrow> nack_pc \<Rightarrow> ('x, 'b) nack_world
    \<Rightarrow> (panic + ('x, 'b) nack_world) option" where
  "nack_exec fp P sv env 0 pc w = None"
| "nack_exec fp P sv env (Suc n) pc w =
     (case nack_step fp P sv env pc w of
        Inl p \<Rightarrow> Some (Inl p)
      | Inr (None, w') \<Rightarrow> Some (Inr w')
      | Inr (Some pc', w') \<Rightarrow> nack_exec fp P sv env n pc' w')"

section \<open>Running alone\<close>

lemma exec_more: "nack_exec fp P sv env m pc w = Some res \<Longrightarrow> nack_exec fp P sv env (m + n) pc w = Some res"
  by (induction fp P sv env m pc w rule: nack_exec.induct) (auto split: sum.splits option.splits)

lemma update_update: "AList.update k v' (AList.update k v m) = AList.update k v' m"
  by (induction m) auto

lemma tb_take_get: "tb_take P t k (tb_get P k b) = tb_Allow P t k b"
  by (cases "map_of (tb_limit b) k")
    (simp_all add: tb_take_def tb_get_def tb_Allow_def update_update Let_def case_prod_beta)

lemma exec_next:
  "nack_step fp P sv env pc w = Inr (Some pc', w') \<Longrightarrow> nack_exec fp P sv env (Suc n) pc w = nack_exec fp P sv env n pc' w'"
  "nack_step fp P sv env pc w = Inr (None, w') \<Longrightarrow> nack_exec fp P sv env (Suc n) pc w = Some (Inr w')"
  "nack_step fp P sv env pc w = Inl p \<Longrightarrow> nack_exec fp P sv env (Suc n) pc w = Some (Inl p)"
  by simp_all

lemma exec_reply:
  "nack_exec fp P sv env (Suc n) (NReply a ty fl q) w = Some (Inr (sendResponse fp (ne_WriteTo env) a ty fl q w))"
  by simp

lemma exec_retransmit:
  assumes "ne_Retransmit env raw (frame_txid raw) (nw_rec w) (nw_x w) = (e, rc, x)"
  shows "nack_exec fp P sv env (Suc (Suc n)) (NRetransmit j raw) w = Some (Inr (
    let w1 = w\<lparr>nw_rec := rc, nw_x := x\<rparr>; w2 = w1\<lparr>nw_rec := on_rec rec_Retransmit (nw_rec w1)\<rparr>
    in if e \<noteq> None then w1
       else if \<not> sv_suppressACK sv
         then (case nj_src j of None \<Rightarrow> w2 | Some a \<Rightarrow> sendResponse fp (ne_WriteTo env) a msgTypeACK 1 (nj_seq j) w2)
         else w2))"
  using assms by (auto simp: ack_pc_def Let_def split: option.split)

lemma exec_hit:
  "nack_exec fp P sv env (Suc (Suc (Suc (Suc n))))
      (case sv_shardEngine sv of None \<Rightarrow> NRetransmit j raw | Some e \<Rightarrow> NGroupGet j raw e)
      (w\<lparr>nw_rec := on_rec rec_CacheHit (nw_rec w)\<rparr>)
    = Some (Inr (serve_hit fp P sv env (nj_src j) (nj_ip j) (nj_seq j) raw w))"
proof (cases "sv_shardEngine sv")
  case None
  obtain e rc x where r: "ne_Retransmit env raw (frame_txid raw) (on_rec rec_CacheHit (nw_rec w)) (nw_x w) = (e, rc, x)"
    by (metis prod.exhaust_sel)
  show ?thesis
    using exec_retransmit [of env raw "w\<lparr>nw_rec := on_rec rec_CacheHit (nw_rec w)\<rparr>" e rc x fp P sv "Suc (Suc n)" j] r None
    by (auto simp: serve_hit_def group_tier_def Let_def simp del: nack_exec.simps split: option.split)
next
  case (Some eng)
  let ?w1 = "w\<lparr>nw_rec := on_rec rec_CacheHit (nw_rec w)\<rparr>"
  let ?k = "group_key (nj_ip j) (se_GroupIndex eng (frame_txid raw))"
  obtain ok t where t: "tb_Allow P (ne_tGroup env) ?k (groupLimiter (nw_lim w)) = (ok, t)" by fastforce
  let ?w2 = "?w1\<lparr>nw_lim := (nw_lim w)\<lparr>groupLimiter := t\<rparr>\<rparr>"
  obtain e rc x where r: "ne_Retransmit env raw (frame_txid raw) (nw_rec ?w2) (nw_x ?w2) = (e, rc, x)"
    by (metis prod.exhaust_sel)
  let ?wg = "?w1\<lparr>nw_lim := (nw_lim w)\<lparr>groupLimiter := tb_get P ?k (groupLimiter (nw_lim w))\<rparr>\<rparr>"
  have "nack_exec fp P sv env (Suc (Suc (Suc (Suc n)))) (NGroupGet j raw eng) ?w1
      = nack_exec fp P sv env (Suc (Suc (Suc n))) (NGroupTake j raw eng) ?wg"
    by (rule exec_next) simp
  moreover have take: "nack_step fp P sv env (NGroupTake j raw eng) ?wg
      = (if ok then Inr (Some (NRetransmit j raw), ?w2) else Inr (ack_pc sv j, drop_at LevelGroup ?w2))"
    using t by (simp add: tb_take_get)
  ultimately have step: "nack_exec fp P sv env (Suc (Suc (Suc (Suc n)))) (NGroupGet j raw eng) ?w1
      = (if ok then nack_exec fp P sv env (Suc (Suc n)) (NRetransmit j raw) ?w2
         else case ack_pc sv j of None \<Rightarrow> Some (Inr (drop_at LevelGroup ?w2))
           | Some pc \<Rightarrow> nack_exec fp P sv env (Suc (Suc n)) pc (drop_at LevelGroup ?w2))"
    by (cases "ack_pc sv j") (simp_all add: nack_exec.simps(2) [of fp P sv env "Suc (Suc n)" "NGroupTake j raw eng"] del: nack_exec.simps nack_step.simps)
  show ?thesis
  proof (cases ok)
    case True
    then show ?thesis using step exec_retransmit [OF r, of fp P sv n j] Some t r
      by (auto simp: serve_hit_def group_tier_def AllowGroup_def Let_def simp del: nack_exec.simps split: option.split)
  next
    case False
    then show ?thesis using step Some t
      by (auto simp: serve_hit_def group_tier_def AllowGroup_def ack_pc_def drop_at_def Let_def split: option.split)
  qed
qed

lemma exec_lookup:
  "nack_exec fp P sv env (Suc (Suc (Suc (Suc (Suc n))))) (NLookup j) w
    = Some (Inr (serve_nack fp P sv env (nj_src j) (nj_ip j) (nj_hash j) (nj_seq j) w))"
proof -
  obtain res x where look: "ne_Retrieve env (frame_key (nj_hash j) (nj_seq j)) (nw_x w) = (res, x)" by fastforce
  show ?thesis
  proof (cases "\<exists>raw. res = Inr (Some raw)")
    case True
    then obtain raw where raw: "res = Inr (Some raw)" ..
    have "nack_exec fp P sv env (Suc (Suc (Suc (Suc (Suc n))))) (NLookup j) w
      = nack_exec fp P sv env (Suc (Suc (Suc (Suc n))))
         (case sv_shardEngine sv of None \<Rightarrow> NRetransmit j raw | Some e \<Rightarrow> NGroupGet j raw e)
         (w\<lparr>nw_x := x\<rparr>\<lparr>nw_rec := on_rec rec_CacheHit (nw_rec (w\<lparr>nw_x := x\<rparr>))\<rparr>)"
      by (subst nack_exec.simps(2)) (simp add: look raw Let_def del: nack_exec.simps)
    then show ?thesis using look raw exec_hit [of fp P sv env n j raw "w\<lparr>nw_x := x\<rparr>"]
      by (simp add: serve_nack_def Let_def del: nack_exec.simps)
  next
    case False
    then show ?thesis using look
      by (cases res) (auto simp: serve_nack_def miss_pc_def Let_def split: option.split)
  qed
qed

lemma exec_tiers:
  "nack_exec fp P sv env (Suc (Suc (Suc (Suc (Suc (Suc (Suc (Suc (Suc n))))))))) (NIPGet j) w =
    Some (case Limiter_Allow P (ne_tIP env) (ne_tSeq env) (nj_ip j) (nj_seq j) (nw_lim w) of
        Inl p \<Rightarrow> Inl p
      | Inr ((allowed, level), lim1) \<Rightarrow>
          if \<not> allowed then Inr (w\<lparr>nw_lim := lim1, nw_rec := on_rec (rec_RateLimitDrop
                 (case level of None \<Rightarrow> [] | Some l \<Rightarrow> level_string l)) (nw_rec w)\<rparr>)
          else (case AllowChain (ne_tChain env) (nj_ip j) (nj_hash j) lim1 of
              Inl p \<Rightarrow> Inl p
            | Inr (ok, lim2) \<Rightarrow>
                if \<not> ok then Inr (w\<lparr>nw_lim := lim2, nw_rec := on_rec (rec_RateLimitDrop (level_string LevelChain)) (nw_rec w)\<rparr>)
                else Inr (serve_nack fp P sv env (nj_src j) (nj_ip j) (nj_hash j) (nj_seq j) (w\<lparr>nw_lim := lim2\<rparr>))))"
proof -
  let ?n = "Suc (Suc (Suc (Suc (Suc n))))"
  let ?exec = "nack_exec fp P sv env" and ?k = "IP_String (nj_ip j)"
  obtain ok t where t: "tb_Allow P (ne_tIP env) ?k (ipLimiter (nw_lim w)) = (ok, t)" by fastforce
  let ?lm = "(nw_lim w)\<lparr>ipLimiter := t\<rparr>"
  have ip: "?exec (Suc (Suc (Suc (Suc ?n)))) (NIPGet j) w
      = (if ok then ?exec (Suc (Suc ?n)) (NSeq j) (w\<lparr>nw_lim := ?lm\<rparr>) else Some (Inr (drop_at LevelIP (w\<lparr>nw_lim := ?lm\<rparr>))))"
    using t by (subst exec_next(1) [OF nack_step.simps(2)], cases ok)
      (simp_all add: exec_next tb_take_get drop_at_def del: nack_exec.simps)
  have chain: "?exec (Suc ?n) (NChain j) (w\<lparr>nw_lim := lm\<rparr>) =
      Some (case AllowChain (ne_tChain env) (nj_ip j) (nj_hash j) lm of
          Inl p \<Rightarrow> Inl p
        | Inr (ok, lim2) \<Rightarrow>
            if \<not> ok then Inr (w\<lparr>nw_lim := lim2, nw_rec := on_rec (rec_RateLimitDrop (level_string LevelChain)) (nw_rec w)\<rparr>)
            else Inr (serve_nack fp P sv env (nj_src j) (nj_ip j) (nj_hash j) (nj_seq j) (w\<lparr>nw_lim := lim2\<rparr>)))" for lm
    by (auto simp: exec_next exec_lookup drop_at_def Let_def simp del: nack_exec.simps split: sum.split)
  show ?thesis
  proof (cases "sq_Allow (ne_tSeq env) (nj_seq j) (sequenceLim (nw_lim w))")
    case (Inl p)
    then show ?thesis using t
      by (simp add: ip Limiter_Allow_def exec_next drop_at_def Let_def del: nack_exec.simps)
  next
    case (Inr b)
    obtain ok2 sq where b: "b = (ok2, sq)" by (cases b)
    have "?exec (Suc (Suc ?n)) (NSeq j) (w\<lparr>nw_lim := ?lm\<rparr>) =
        (if ok2 then ?exec (Suc ?n) (NChain j) (w\<lparr>nw_lim := ?lm\<lparr>sequenceLim := sq\<rparr>\<rparr>)
         else Some (Inr (drop_at LevelSequence (w\<lparr>nw_lim := ?lm\<lparr>sequenceLim := sq\<rparr>\<rparr>))))"
      using Inr b by (simp add: exec_next Let_def del: nack_exec.simps)
    then show ?thesis using t Inr b
      by (simp add: ip chain Limiter_Allow_def drop_at_def Let_def del: nack_exec.simps)
  qed
qed

section \<open>What every step keeps\<close>

text \<open>The limiter as a well-formed state: its maps have one entry per key, and no window keeps more
  timestamps than its maximum.\<close>

definition limiter_wf :: "'b Limiter \<Rightarrow> bool" where
  "limiter_wf lm \<longleftrightarrow> wf_map (tb_limit (ipLimiter lm)) \<and> wf_map (tb_limit (groupLimiter lm))
     \<and> wf_map (sw_keys (chainLimiter lm)) \<and> wf_map (sq_seqs (sequenceLim lm))
     \<and> (\<forall>k. int (length (sw_stamps (chainLimiter lm) k)) \<le> sw_max (chainLimiter lm))
     \<and> (\<forall>k. int (length (sq_stamps (sequenceLim lm) k)) \<le> sq_max (sequenceLim lm))"

lemma wf_tb [simp]:
  "wf_map (tb_limit t) \<Longrightarrow> wf_map (tb_limit (tb_get P k t))"
  "wf_map (tb_limit t) \<Longrightarrow> wf_map (tb_limit (snd (tb_take P now k t)))"
  by (auto simp: tb_get_def tb_take_def Let_def split: option.split prod.split)

lemma sq_Allow_wf:
  assumes "sane (sq_max r)" "wf_map (sq_seqs r)" "\<forall>k. int (length (sq_stamps r k)) \<le> sq_max r"
    and "sq_Allow t q r = Inr (ok, r')"
  shows "sq_max r' = sq_max r \<and> wf_map (sq_seqs r') \<and> (\<forall>k. int (length (sq_stamps r' k)) \<le> sq_max r')"
proof -
  let ?live = "filter (\<lambda>u. t - sq_window r < u) (sq_stamps r q)"
  have "int (length ?live) \<le> sq_max r" using assms(3) by (meson length_filter_le of_nat_mono order_trans)
  then show ?thesis using assms by (auto simp: sq_Allow_eq sq_stamps_def Let_def)
qed

lemma sw_Allow_wf:
  assumes "sane (sw_max r)" "wf_map (sw_keys r)" "\<forall>k. int (length (sw_stamps r k)) \<le> sw_max r"
    and "sw_Allow t q r = Inr (ok, r')"
  shows "sw_max r' = sw_max r \<and> wf_map (sw_keys r') \<and> (\<forall>k. int (length (sw_stamps r' k)) \<le> sw_max r')"
proof -
  let ?live = "filter (\<lambda>u. t - sw_window r < u) (sw_stamps r q)"
  have "int (length ?live) \<le> sw_max r" using assms(3) by (meson length_filter_le of_nat_mono order_trans)
  then show ?thesis using assms by (auto simp: sw_Allow_eq sw_stamps_def Let_def)
qed

text \<open>Each tier on a limiter whose windows can be allocated: it does not panic, and keeps that and the
  well-formedness.\<close>

definition keeps_limiter :: "'b Limiter \<Rightarrow> 'b Limiter \<Rightarrow> bool" where
  "keeps_limiter lm lm' \<longleftrightarrow> limiter_sane lm' \<and> (limiter_wf lm \<longrightarrow> limiter_wf lm')"

lemmas limiter_defs = keeps_limiter_def limiter_sane_def limiter_wf_def

lemma seq_step_ok:
  assumes "limiter_sane lm"
  shows "\<exists>ok sq. sq_Allow t q (sequenceLim lm) = Inr (ok, sq) \<and> keeps_limiter lm (lm\<lparr>sequenceLim := sq\<rparr>)"
proof -
  obtain ok sq where sq: "sq_Allow t q (sequenceLim lm) = Inr (ok, sq)"
    using assms by (auto simp: limiter_defs sq_Allow_eq Let_def)
  then have "sq_max sq = sq_max (sequenceLim lm)" using assms by (auto simp: limiter_defs sq_Allow_eq Let_def)
  then show ?thesis using assms sq sq_Allow_wf [OF _ _ _ sq] by (auto simp: limiter_defs)
qed

lemma chain_step_ok:
  assumes "limiter_sane lm"
  shows "\<exists>ok lm'. AllowChain t i h lm = Inr (ok, lm') \<and> keeps_limiter lm lm'"
proof (cases "h = 0")
  case False
  obtain ok sw where sw: "sw_Allow t (chain_key i h) (chainLimiter lm) = Inr (ok, sw)"
    using assms by (auto simp: limiter_defs sw_Allow_eq Let_def)
  then have "sw_max sw = sw_max (chainLimiter lm)" using assms by (auto simp: limiter_defs sw_Allow_eq Let_def)
  then show ?thesis using assms False sw sw_Allow_wf [OF _ _ _ sw] by (auto simp: AllowChain_def limiter_defs)
qed (use assms in \<open>auto simp: AllowChain_def keeps_limiter_def\<close>)

lemma tb_step_ok:
  assumes "limiter_sane lm"
  shows "keeps_limiter lm (lm\<lparr>ipLimiter := tb_get P k (ipLimiter lm)\<rparr>)"
    "keeps_limiter lm (lm\<lparr>ipLimiter := snd (tb_take P t k (ipLimiter lm))\<rparr>)"
    "keeps_limiter lm (lm\<lparr>groupLimiter := tb_get P k (groupLimiter lm)\<rparr>)"
    "keeps_limiter lm (lm\<lparr>groupLimiter := snd (tb_take P t k (groupLimiter lm))\<rparr>)"
  using assms by (simp_all add: limiter_defs)

lemma keeps_limiter_refl [simp]: "limiter_sane lm \<Longrightarrow> keeps_limiter lm lm"
  by (simp add: keeps_limiter_def)

text \<open>The steps left at a program counter.\<close>

fun pc_rank :: "nack_pc \<Rightarrow> nat" where
  "pc_rank (NRecv d src) = 10"
| "pc_rank (NIPGet j) = 9"
| "pc_rank (NIPTake j) = 8"
| "pc_rank (NSeq j) = 7"
| "pc_rank (NChain j) = 6"
| "pc_rank (NLookup j) = 5"
| "pc_rank (NGroupGet j raw e) = 4"
| "pc_rank (NGroupTake j raw e) = 3"
| "pc_rank (NRetransmit j raw) = 2"
| "pc_rank (NReply a ty fl q) = 1"

lemma pc_rank_bound: "pc_rank pc \<le> 10"
  by (cases pc) simp_all

lemma ack_miss_rank [simp]:
  "ack_pc sv j = Some pc \<Longrightarrow> pc_rank pc = 1" "miss_pc sv j = Some pc \<Longrightarrow> pc_rank pc = 1"
  by (auto simp: ack_pc_def miss_pc_def split: if_splits option.splits)

text \<open>A step does not panic, keeps the limiter well-formed and makes progress.\<close>

lemma nack_step_ok:
  assumes "limiter_sane (nw_lim w)"
  shows "\<exists>pc' w'. nack_step fp P sv env pc w = Inr (pc', w') \<and> keeps_limiter (nw_lim w) (nw_lim w')
    \<and> (\<forall>q. pc' = Some q \<longrightarrow> pc_rank q < pc_rank pc)"
proof (cases pc)
  case (NSeq j)
  obtain ok sq where "sq_Allow (ne_tSeq env) (nj_seq j) (sequenceLim (nw_lim w)) = Inr (ok, sq)"
    "keeps_limiter (nw_lim w) ((nw_lim w)\<lparr>sequenceLim := sq\<rparr>)" using seq_step_ok [OF assms] by blast
  then show ?thesis by (simp add: NSeq drop_at_def Let_def)
next
  case (NChain j)
  obtain ok lm where "AllowChain (ne_tChain env) (nj_ip j) (nj_hash j) (nw_lim w) = Inr (ok, lm)" "keeps_limiter (nw_lim w) lm"
    using chain_step_ok [OF assms] by blast
  then show ?thesis by (simp add: NChain drop_at_def Let_def)
next
  case (NIPTake j)
  then show ?thesis using tb_step_ok(2) [OF assms] by (simp add: drop_at_def Let_def case_prod_beta)
next
  case (NGroupTake j raw e)
  then show ?thesis using tb_step_ok(4) [OF assms] by (auto simp: drop_at_def Let_def case_prod_beta)
qed (use assms tb_step_ok in \<open>auto simp: Let_def case_prod_beta sendResponse_sent split: sum.split option.split\<close>)

text \<open>Which request a program counter belongs to, and what it may answer.\<close>

definition answers :: "frame_pkg \<Rightarrow> bytes \<times> udp_addr option \<Rightarrow> udp_addr \<times> bytes \<Rightarrow> bool" where
  "answers fp r m \<longleftrightarrow> snd r = Some (fst m) \<and> validateNACK fp (fst r) = None \<and> nack_end (fst r) = nack_start (fst r)
     \<and> (snd m = response_bytes fp msgTypeMISS 0 0 \<or> snd m = response_bytes fp msgTypeACK 1 (nack_start (fst r)))"

definition job_of :: "frame_pkg \<Rightarrow> bytes \<times> udp_addr option \<Rightarrow> nack_job \<Rightarrow> bool" where
  "job_of fp r j \<longleftrightarrow> validateNACK fp (fst r) = None \<and> nack_end (fst r) = nack_start (fst r)
     \<and> nj_src j = snd r \<and> nj_seq j = nack_start (fst r)"

fun belongs :: "frame_pkg \<Rightarrow> bytes \<times> udp_addr option \<Rightarrow> nack_pc \<Rightarrow> bool" where
  "belongs fp r (NRecv d src) = (r = (d, src))"
| "belongs fp r (NIPGet j) = job_of fp r j"
| "belongs fp r (NIPTake j) = job_of fp r j"
| "belongs fp r (NSeq j) = job_of fp r j"
| "belongs fp r (NChain j) = job_of fp r j"
| "belongs fp r (NLookup j) = job_of fp r j"
| "belongs fp r (NGroupGet j raw e) = job_of fp r j"
| "belongs fp r (NGroupTake j raw e) = job_of fp r j"
| "belongs fp r (NRetransmit j raw) = job_of fp r j"
| "belongs fp r (NReply a ty fl q) = answers fp r (a, response_bytes fp ty fl q)"

lemma ack_miss_belongs:
  "job_of fp r j \<Longrightarrow> ack_pc sv j = Some pc \<Longrightarrow> belongs fp r pc"
  "job_of fp r j \<Longrightarrow> miss_pc sv j = Some pc \<Longrightarrow> belongs fp r pc"
  by (auto simp: ack_pc_def miss_pc_def answers_def job_of_def split: if_splits option.splits)

text \<open>A step stays with its request; only the last one sends, at most one datagram, to the requester.\<close>

lemma nack_step_sends:
  assumes "nack_step fp P sv env pc w = Inr (pc', w')" "belongs fp r pc"
  shows "(\<forall>q. pc' = Some q \<longrightarrow> belongs fp r q) \<and> (nw_sent w' = nw_sent w
    \<or> pc' = None \<and> (\<exists>m. answers fp r m \<and> nw_sent w' = nw_sent w @ [m]))"
  using assms
  by (cases pc) (auto simp: Let_def drop_at_def sendResponse_sent respond_def job_of_def
      split: if_splits sum.splits option.splits prod.splits intro: ack_miss_belongs)

section \<open>The steps and the handler\<close>

text \<open>The handler's critical sections, executed one after the other without interference, are the whole
  handler: within ten steps it has returned, with exactly the state (or the panic) of \<open>processNACK\<close>.\<close>

lemma handler_steps_are_handler:
  "nack_exec fp P sv env 10 (NRecv d src) w = Some (processNACK fp P sv env d src w)"
proof -
  have ten: "10 = Suc (Suc (Suc (Suc (Suc (Suc (Suc (Suc (Suc (Suc 0)))))))))" by simp
  show ?thesis
  proof (cases "validateNACK fp d = None \<and> Uint64 (sub d 24 32) = Uint64 (sub d 16 24)")
    case True
    then show ?thesis unfolding ten
      by (simp add: exec_next exec_tiers processNACK_def Let_def del: nack_exec.simps split: sum.split)
  next
    case False
    then show ?thesis unfolding ten by (auto simp: processNACK_def Let_def)
  qed
qed

section \<open>Properties\<close>

text \<open>The handler's critical sections, executed one after the other without interference, are the whole
  handler: within ten steps it has returned, with exactly the state (or the panic) of \<open>processNACK\<close>, and it
  takes no step more.\<close>

lemma handler_alone_is_processNACK:
  "nack_exec fp P sv env (10 + n) (NRecv d src) w = Some (processNACK fp P sv env d src w)"
  using exec_more [OF handler_steps_are_handler] .

end
