(* ===== verification/Worker_Pool.thy ===== *)
theory Worker_Pool
  imports Nack_Steps "HOL-Library.Sublist" "HOL-Library.Multiset"
begin

text \<open>
  \<open>Run\<close> of \<open>src/server/server.go\<close>: one reader goroutine, a channel of capacity 100 and the worker
  goroutines, as a step relation in which the scheduler, the network and the canceller choose.  A worker
  executes its handler one critical section at a time (\<open>nack_step\<close>), so the steps of different handlers
  on the shared limiter, cache and socket interleave in every way the locks allow; what the environment
  gives a step (clock readings, results of the cache and of writes) is chosen anew for it.

  The state also keeps the history: the requests the reader accepted and those a worker took, in order.
\<close>

section \<open>State\<close>

type_synonym nack_request = "bytes \<times> udp_addr option"

text \<open>Where the reader is: at the top of the loop, in \<open>ReadFrom\<close>, at the \<open>select\<close> that enqueues, in
  \<open>wg.Wait\<close> after closing the channel, or returned.\<close>

datatype reader = RLoop | RRead | REnq nack_request | RWait | RDone

text \<open>A worker waits at its \<open>select\<close>, handles a request, or has returned; \<open>'p\<close> is where a handler is.\<close>

datatype 'p pool_worker = WIdle | WBusy nack_request 'p | WExit

record ('p, 'w) pool =
  p_reader :: reader
  p_chan :: "nack_request list"
  p_closed :: bool
  p_workers :: "'p pool_worker list"
  p_ctx :: bool
  p_panic :: "panic option"
  p_world :: 'w
  p_recv :: "nack_request list"
  p_taken :: "nack_request list"

definition chan_cap :: nat where "chan_cap = 100"

text \<open>The handler a worker executes: where it starts on a request, its steps (a relation, for the choices of
  the environment; \<open>None\<close> when it has returned), and what the deferred calls do to the shared state
  when \<open>Run\<close> returns.\<close>

record ('p, 'w) pool_ops =
  po_start :: "nack_request \<Rightarrow> 'p"
  po_step :: "'p \<Rightarrow> 'w \<Rightarrow> panic + ('p option \<times> 'w) \<Rightarrow> bool"
  po_done :: "'w \<Rightarrow> 'w"

section \<open>Steps\<close>

text \<open>\<open>close(requests)\<close> followed by \<open>wg.Wait()\<close>.\<close>

definition close_requests :: "('p, 'w) pool \<Rightarrow> ('p, 'w) pool" where
  "close_requests s = (if p_closed s then s\<lparr>p_panic := Some CloseOfClosedChannel\<rparr>
     else s\<lparr>p_closed := True, p_reader := RWait\<rparr>)"

text \<open>What \<open>ReadFrom\<close> gives: a timeout, another error, or a datagram, of which the 64-byte buffer takes
  the first 64 bytes; the source address is nil when it is not a UDP address.\<close>

datatype read_result = ReadTimeout | ReadError | ReadData bytes "udp_addr option"

definition reader_read :: "read_result \<Rightarrow> ('p, 'w) pool \<Rightarrow> ('p, 'w) pool" where
  "reader_read rd s =
     (case rd of
        ReadTimeout \<Rightarrow> s\<lparr>p_reader := RLoop\<rparr>
      | ReadError \<Rightarrow> if p_ctx s then close_requests s else s\<lparr>p_reader := RLoop\<rparr>
      | ReadData d src \<Rightarrow>
          let buf = take NACKSize d
          in if length buf \<noteq> NACKSize then s\<lparr>p_reader := RLoop\<rparr>
             else s\<lparr>p_reader := REnq (buf, src), p_recv := p_recv s @ [(buf, src)]\<rparr>)"

inductive pool_step :: "('p, 'w) pool_ops \<Rightarrow> ('p, 'w) pool \<Rightarrow> ('p, 'w) pool \<Rightarrow> bool" for ops where
  cancel: "p_panic s = None \<Longrightarrow> \<not> p_ctx s \<Longrightarrow> pool_step ops s (s\<lparr>p_ctx := True\<rparr>)"
| top_done: "p_panic s = None \<Longrightarrow> p_reader s = RLoop \<Longrightarrow> p_ctx s \<Longrightarrow> pool_step ops s (close_requests s)"
| top_read: "p_panic s = None \<Longrightarrow> p_reader s = RLoop \<Longrightarrow> \<not> p_ctx s \<Longrightarrow> pool_step ops s (s\<lparr>p_reader := RRead\<rparr>)"
| read: "p_panic s = None \<Longrightarrow> p_reader s = RRead \<Longrightarrow> pool_step ops s (reader_read rd s)"
| send_closed: "p_panic s = None \<Longrightarrow> p_reader s = REnq r \<Longrightarrow> p_closed s \<Longrightarrow>
    pool_step ops s (s\<lparr>p_panic := Some SendOnClosedChannel\<rparr>)"
| send: "p_panic s = None \<Longrightarrow> p_reader s = REnq r \<Longrightarrow> \<not> p_closed s \<Longrightarrow> length (p_chan s) < chan_cap \<Longrightarrow>
    pool_step ops s (s\<lparr>p_reader := RLoop, p_chan := p_chan s @ [r]\<rparr>)"
| send_cancel: "p_panic s = None \<Longrightarrow> p_reader s = REnq r \<Longrightarrow> p_ctx s \<Longrightarrow> pool_step ops s (close_requests s)"
| take_req: "p_panic s = None \<Longrightarrow> i < length (p_workers s) \<Longrightarrow> p_workers s ! i = WIdle \<Longrightarrow> p_chan s = r # rs \<Longrightarrow>
    pool_step ops s (s\<lparr>p_workers := (p_workers s)[i := WBusy r (po_start ops r)], p_chan := rs, p_taken := p_taken s @ [r]\<rparr>)"
| worker_ctx: "p_panic s = None \<Longrightarrow> i < length (p_workers s) \<Longrightarrow> p_workers s ! i = WIdle \<Longrightarrow> p_ctx s \<Longrightarrow>
    pool_step ops s (s\<lparr>p_workers := (p_workers s)[i := WExit]\<rparr>)"
| worker_closed: "p_panic s = None \<Longrightarrow> i < length (p_workers s) \<Longrightarrow> p_workers s ! i = WIdle \<Longrightarrow> p_closed s \<Longrightarrow>
    p_chan s = [] \<Longrightarrow> pool_step ops s (s\<lparr>p_workers := (p_workers s)[i := WExit]\<rparr>)"
| handle: "p_panic s = None \<Longrightarrow> i < length (p_workers s) \<Longrightarrow> p_workers s ! i = WBusy r pc \<Longrightarrow>
    po_step ops pc (p_world s) (Inr (Some pc', w')) \<Longrightarrow>
    pool_step ops s (s\<lparr>p_workers := (p_workers s)[i := WBusy r pc'], p_world := w'\<rparr>)"
| handle_return: "p_panic s = None \<Longrightarrow> i < length (p_workers s) \<Longrightarrow> p_workers s ! i = WBusy r pc \<Longrightarrow>
    po_step ops pc (p_world s) (Inr (None, w')) \<Longrightarrow>
    pool_step ops s (s\<lparr>p_workers := (p_workers s)[i := WIdle], p_world := w'\<rparr>)"
| handle_panic: "p_panic s = None \<Longrightarrow> i < length (p_workers s) \<Longrightarrow> p_workers s ! i = WBusy r pc \<Longrightarrow>
    po_step ops pc (p_world s) (Inl p) \<Longrightarrow> pool_step ops s (s\<lparr>p_panic := Some p\<rparr>)"
| wait_done: "p_panic s = None \<Longrightarrow> p_reader s = RWait \<Longrightarrow> set (p_workers s) \<subseteq> {WExit} \<Longrightarrow>
    pool_step ops s (s\<lparr>p_reader := RDone, p_world := po_done ops (p_world s)\<rparr>)"

text \<open>The pool as it is when the workers have been started.\<close>

definition pool_start :: "int \<Rightarrow> 'w \<Rightarrow> ('p, 'w) pool" where
  "pool_start workers w = \<lparr>p_reader = RLoop, p_chan = [], p_closed = False,
     p_workers = replicate (nat workers) WIdle, p_ctx = False, p_panic = None, p_world = w,
     p_recv = [], p_taken = []\<rparr>"

section \<open>The server's pool\<close>

text \<open>The listen address of \<open>Run\<close>.\<close>

definition listen_addr :: "server \<Rightarrow> bytes" where
  "listen_addr sv = (let host = (if sv_bindAddr sv \<noteq> [] then sv_bindAddr sv else [colon, colon])
     in [91] @ host @ [93, colon] @ dec_int (sv_port sv))"

definition nack_handle :: "frame_pkg \<Rightarrow> 'b rate_pkg \<Rightarrow> server \<Rightarrow> nack_pc \<Rightarrow> ('x, 'b) nack_world
    \<Rightarrow> panic + (nack_pc option \<times> ('x, 'b) nack_world) \<Rightarrow> bool" where
  "nack_handle fp P sv pc w res \<longleftrightarrow> (\<exists>env. res = nack_step fp P sv env pc w)"

definition nack_pool :: "frame_pkg \<Rightarrow> 'b rate_pkg \<Rightarrow> server \<Rightarrow> (nack_pc, ('x, 'b) nack_world) pool_ops" where
  "nack_pool fp P sv = \<lparr>po_start = (\<lambda>(d, src). NRecv d src), po_step = nack_handle fp P sv,
     po_done = (\<lambda>w. w\<lparr>nw_rec := on_rec rec_WorkerDone (nw_rec w)\<rparr>)\<rparr>"

text \<open>\<open>Run\<close> up to the start of its loop; \<open>listen\<close> is \<open>net.ListenPacket\<close>.\<close>

definition server_start :: "(bytes \<Rightarrow> err option) \<Rightarrow> server \<Rightarrow> ('x, 'b) nack_world
    \<Rightarrow> err + (nack_pc, ('x, 'b) nack_world) pool" where
  "server_start listen sv w =
     (if listen (listen_addr sv) \<noteq> None then Inl (Err ''server: listen'')
      else Inr (pool_start (sv_workers sv) (w\<lparr>nw_rec := on_rec rec_WorkerReady (nw_rec w)\<rparr>)))"

section \<open>Invariant\<close>

definition in_hand :: "reader \<Rightarrow> nack_request list" where
  "in_hand r = (case r of REnq q \<Rightarrow> [q] | _ \<Rightarrow> [])"

definition pool_inv :: "('p, 'w) pool \<Rightarrow> bool" where
  "pool_inv s \<longleftrightarrow> length (p_chan s) \<le> chan_cap
     \<and> (p_closed s \<longleftrightarrow> p_reader s = RWait \<or> p_reader s = RDone)
     \<and> (p_closed s \<longrightarrow> p_ctx s)
     \<and> prefix (p_taken s @ p_chan s @ in_hand (p_reader s)) (p_recv s)
     \<and> (\<not> p_closed s \<longrightarrow> p_recv s = p_taken s @ p_chan s @ in_hand (p_reader s))
     \<and> (p_reader s = RDone \<longrightarrow> set (p_workers s) \<subseteq> {WExit})
     \<and> (\<forall>r \<in> set (p_recv s). length (fst r) = NACKSize)"

lemma pool_inv_start: "pool_inv (pool_start n w)"
  by (simp add: pool_inv_def pool_start_def in_hand_def)

lemmas pool_inv_simps = pool_inv_def in_hand_def close_requests_def

lemma idle_not_exit:
  "i < length ws \<Longrightarrow> ws ! i = x \<Longrightarrow> x \<noteq> WExit \<Longrightarrow> \<not> set ws \<subseteq> {WExit}"
  by (metis nth_mem singletonD subsetD)

lemma close_requests_inv:
  "pool_inv s \<Longrightarrow> p_ctx s \<Longrightarrow> \<not> p_closed s \<Longrightarrow> pool_inv (close_requests s)"
  by (auto simp: pool_inv_simps prefix_def)

lemma reader_read_inv: "pool_inv s \<Longrightarrow> p_reader s = RRead \<Longrightarrow> pool_inv (reader_read rd s)"
  by (cases rd) (auto simp: reader_read_def Let_def NACKSize_def min_def close_requests_inv, auto simp: pool_inv_simps NACKSize_def)

lemma pool_inv_worker:
  "pool_inv s \<Longrightarrow> i < length (p_workers s) \<Longrightarrow> p_workers s ! i \<noteq> WExit \<Longrightarrow> pool_inv (s\<lparr>p_workers := (p_workers s)[i := x]\<rparr>)"
  using idle_not_exit [of i "p_workers s"] by (auto simp: pool_inv_def)

lemma pool_inv_world [simp]: "pool_inv (s\<lparr>p_world := w\<rparr>) = pool_inv s"
  by (simp add: pool_inv_def)

lemma pool_step_inv: "pool_step ops s s' \<Longrightarrow> pool_inv s \<Longrightarrow> pool_inv s'"
proof (induction rule: pool_step.induct)
  case (top_done s)
  then show ?case by (intro close_requests_inv) (auto simp: pool_inv_def)
next
  case (send_cancel s r)
  then show ?case by (intro close_requests_inv) (auto simp: pool_inv_def)
next
  case (read s rd)
  then show ?case by (intro reader_read_inv)
next
  case (take_req s i r rs)
  then show ?case using pool_inv_worker [of s i "WBusy r (po_start ops r)"] by (auto simp: pool_inv_def)
next
  case (handle s i r pc pc' w')
  then show ?case using pool_inv_worker [of s i "WBusy r pc'"] by (simp add: pool_inv_def)
next
  case (handle_return s i r pc w')
  then show ?case using pool_inv_worker [of s i WIdle] by (simp add: pool_inv_def)
qed (auto simp: pool_inv_simps dest: set_update_subset_insert [THEN subsetD])

text \<open>After the cancellation every step brings the pool closer to its end.  A handler has at most \<open>bound\<close> steps, of
  which \<open>rank pc\<close> are left at \<open>pc\<close>.\<close>

fun reader_rank :: "nat \<Rightarrow> reader \<Rightarrow> nat" where
  "reader_rank bound RRead = bound + 6"
| "reader_rank bound (REnq r) = bound + 5"
| "reader_rank bound RLoop = 2"
| "reader_rank bound RWait = 1"
| "reader_rank bound RDone = 0"

fun worker_rank :: "('p \<Rightarrow> nat) \<Rightarrow> 'p pool_worker \<Rightarrow> nat" where
  "worker_rank rank (WBusy r pc) = rank pc + 2"
| "worker_rank rank WIdle = 1"
| "worker_rank rank WExit = 0"

definition pool_rank :: "nat \<Rightarrow> ('p \<Rightarrow> nat) \<Rightarrow> ('p, 'w) pool \<Rightarrow> nat" where
  "pool_rank bound rank s = reader_rank bound (p_reader s) + (bound + 2) * length (p_chan s)
     + sum_list (map (worker_rank rank) (p_workers s))"

lemma sum_list_map_update:
  fixes f :: "'a \<Rightarrow> 'b :: comm_monoid_add"
  shows "i < length ws \<Longrightarrow> sum_list (map f (ws[i := x])) + f (ws ! i) = sum_list (map f ws) + f x"
proof (induction ws arbitrary: i)
  case (Cons w ws)
  then show ?case by (cases i) (auto simp: add.commute add.left_commute)
qed simp

section \<open>The interface of a handler\<close>

text \<open>What the pool needs of the handler: on a state with the invariant each of its steps happens, does not
  panic, keeps the invariant, and brings the handler closer to its return.\<close>

locale request_handler =
  fixes ops :: "('p, 'w) pool_ops" and inv :: "'w \<Rightarrow> bool" and rank :: "'p \<Rightarrow> nat" and bound :: nat
  assumes start_rank: "rank (po_start ops r) \<le> bound"
    and step_total: "inv w \<Longrightarrow> \<exists>res. po_step ops pc w res"
    and step_inv: "inv w \<Longrightarrow> po_step ops pc w res \<Longrightarrow>
      \<exists>pc' w'. res = Inr (pc', w') \<and> inv w' \<and> (\<forall>q. pc' = Some q \<longrightarrow> rank q < rank pc)"
    and done_inv: "inv w \<Longrightarrow> inv (po_done ops w)"
begin

definition good :: "('p, 'w) pool \<Rightarrow> bool" where
  "good s \<longleftrightarrow> p_panic s = None \<and> inv (p_world s) \<and> pool_inv s"

lemma step_good: "pool_step ops s s' \<Longrightarrow> good s \<Longrightarrow> good s'"
proof -
  assume step: "pool_step ops s s'" and "good s"
  then have s: "p_panic s = None" "inv (p_world s)" "pool_inv s" by (simp_all add: good_def)
  have "p_panic s' = None \<and> inv (p_world s')"
    using step s
  proof (induction rule: pool_step.induct)
    case (handle_panic s i r pc p)
    then show ?case using step_inv by blast
  next
    case (handle s i r pc pc' w')
    then show ?case using step_inv by fastforce
  next
    case (handle_return s i r pc w')
    then show ?case using step_inv by fastforce
  next
    case (read s rd)
    then show ?case by (cases rd) (auto simp: reader_read_def pool_inv_simps Let_def)
  qed (auto simp: pool_inv_simps done_inv)
  then show "good s'" using pool_step_inv [OF step] s by (simp add: good_def)
qed

lemma reach_good: "(pool_step ops)\<^sup>*\<^sup>* s s' \<Longrightarrow> good s \<Longrightarrow> good s'"
  by (induction rule: rtranclp_induct) (auto intro: step_good)

lemma start_good: "inv w \<Longrightarrow> good (pool_start n w)"
  by (simp add: good_def pool_inv_start) (simp add: pool_start_def)

lemma step_rank:
  "pool_step ops s s' \<Longrightarrow> p_ctx s \<Longrightarrow> good s \<Longrightarrow> p_panic s' = None \<Longrightarrow>
    p_ctx s' \<and> pool_rank bound rank s' < pool_rank bound rank s"
proof (induction rule: pool_step.induct)
  case (read s rd)
  then show ?case
    by (cases rd) (auto simp: reader_read_def pool_rank_def close_requests_def Let_def split: if_splits)
next
  case (take_req s i r rs)
  then show ?case
    using sum_list_map_update [of i "p_workers s" "worker_rank rank" "WBusy r (po_start ops r)"] start_rank [of r]
    by (simp add: pool_rank_def)
next
  case (worker_ctx s i)
  then show ?case using sum_list_map_update [of i "p_workers s" "worker_rank rank" WExit] by (simp add: pool_rank_def)
next
  case (worker_closed s i)
  then show ?case using sum_list_map_update [of i "p_workers s" "worker_rank rank" WExit] by (simp add: pool_rank_def)
next
  case (handle s i r pc pc' w')
  then have "rank pc' < rank pc" using step_inv unfolding good_def by fastforce
  then show ?case
    using handle sum_list_map_update [of i "p_workers s" "worker_rank rank" "WBusy r pc'"] by (simp add: pool_rank_def)
next
  case (handle_return s i r pc w')
  then show ?case using sum_list_map_update [of i "p_workers s" "worker_rank rank" WIdle] by (simp add: pool_rank_def)
qed (auto simp: pool_rank_def close_requests_def split: if_splits)

lemma steps_bounded:
  "(pool_step ops ^^ n) s s' \<Longrightarrow> good s \<Longrightarrow> p_ctx s \<Longrightarrow>
    good s' \<and> p_ctx s' \<and> n + pool_rank bound rank s' \<le> pool_rank bound rank s"
proof (induction n arbitrary: s')
  case (Suc n)
  then obtain t where t: "(pool_step ops ^^ n) s t" "pool_step ops t s'" by auto
  then have t': "good t" "p_ctx t" "n + pool_rank bound rank t \<le> pool_rank bound rank s" using Suc by auto
  then have "good s'" using step_good t(2) by blast
  then show ?case using step_rank [OF t(2) t'(2,1)] t' by (auto simp: good_def)
qed simp

lemma stuck_is_done:
  assumes "good s" "p_ctx s" "\<And>s'. \<not> pool_step ops s s'"
  shows "p_reader s = RDone"
proof (cases "set (p_workers s) \<subseteq> {WExit}")
  case True
  then show ?thesis
    using assms by (metis good_def reader.exhaust pool_step.top_done pool_step.read pool_step.send_cancel
        pool_step.wait_done)
next
  case False
  then obtain i where i: "i < length (p_workers s)" "p_workers s ! i \<noteq> WExit"
    by (auto simp: set_conv_nth)
  show ?thesis
  proof (cases "p_workers s ! i")
    case WIdle
    then show ?thesis using assms pool_step.worker_ctx i(1) by (metis good_def)
  next
    case (WBusy r pc)
    obtain pc' w' where "po_step ops pc (p_world s) (Inr (pc', w'))"
      using assms(1) step_total step_inv unfolding good_def by metis
    then show ?thesis
      using assms pool_step.handle [OF _ i(1) WBusy, of ops] pool_step.handle_return [OF _ i(1) WBusy, of ops]
      by (cases pc') (auto simp: good_def)
  qed (use i in simp)
qed

end

interpretation np: request_handler "nack_pool fp P sv" "\<lambda>w. limiter_sane (nw_lim w)" pc_rank 10 for fp P sv
proof
  fix w :: "('c, 'a) nack_world" and pc res
  assume "limiter_sane (nw_lim w)" "po_step (nack_pool fp P sv) pc w res"
  then show "\<exists>pc' w'. res = Inr (pc', w') \<and> limiter_sane (nw_lim w') \<and> (\<forall>q. pc' = Some q \<longrightarrow> pc_rank q < pc_rank pc)"
    using nack_step_ok [of w fp P sv _ pc] by (fastforce simp: nack_pool_def nack_handle_def keeps_limiter_def)
qed (auto simp: nack_pool_def nack_handle_def)

text \<open>Which answers the pool owes: the requests in the hands of the workers, and a matching of every datagram
  sent so far with a request that was taken.\<close>

definition held :: "'p pool_worker \<Rightarrow> nack_request multiset" where
  "held x = (case x of WBusy r pc \<Rightarrow> {#r#} | _ \<Rightarrow> {#})"

lemma held_idle [simp]: "sum_list (replicate n (held WIdle)) = {#}"
  by (induction n) (simp_all add: held_def)

definition matched :: "frame_pkg \<Rightarrow> (nack_pc, ('x, 'b) nack_world) pool \<Rightarrow> bool" where
  "matched fp s \<longleftrightarrow> (\<forall>r pc. WBusy r pc \<in> set (p_workers s) \<longrightarrow> belongs fp r pc)
     \<and> (\<exists>rs. list_all2 (answers fp) rs (nw_sent (p_world s))
          \<and> mset rs + sum_list (map held (p_workers s)) \<subseteq># mset (p_taken s))"

lemma matched_worker:
  assumes m: "matched fp s" and i: "i < length (p_workers s)"
    and busy: "\<And>r pc. x = WBusy r pc \<Longrightarrow> belongs fp r pc"
    and new: "list_all2 (answers fp) ns ms" "mset ns + held x \<subseteq># held (p_workers s ! i) + mset ts"
    and s': "p_workers s' = (p_workers s)[i := x]" "nw_sent (p_world s') = nw_sent (p_world s) @ ms"
      "p_taken s' = p_taken s @ ts"
  shows "matched fp s'"
proof -
  let ?ws = "p_workers s" and ?h = "held (p_workers s ! i)"
  from m obtain rs where rs: "list_all2 (answers fp) rs (nw_sent (p_world s))"
    "mset rs + sum_list (map held ?ws) \<subseteq># mset (p_taken s)" by (auto simp: matched_def)
  have "mset (rs @ ns) + sum_list (map held (?ws[i := x])) + ?h = (mset rs + sum_list (map held ?ws)) + (mset ns + held x)"
    using sum_list_map_update [OF i, of held x] by (simp add: ac_simps)
  also have "\<dots> \<subseteq># mset (p_taken s) + (?h + mset ts)" using rs(2) new(2) by (rule subset_mset.add_mono)
  finally have "mset (rs @ ns) + sum_list (map held (?ws[i := x])) \<subseteq># mset (p_taken s @ ts)"
    by (simp add: ac_simps)
  moreover have "list_all2 (answers fp) (rs @ ns) (nw_sent (p_world s) @ ms)"
    using rs(1) new(1) by (rule list_all2_appendI)
  moreover have "\<forall>r pc. WBusy r pc \<in> set (?ws[i := x]) \<longrightarrow> belongs fp r pc"
    using m busy set_update_subset_insert [of ?ws i x] by (fastforce simp: matched_def)
  ultimately show ?thesis unfolding matched_def s' by blast
qed

lemma matched_move:
  "matched fp s \<Longrightarrow> i < length (p_workers s) \<Longrightarrow> (\<And>r pc. x = WBusy r pc \<Longrightarrow> belongs fp r pc) \<Longrightarrow>
    held x \<subseteq># held (p_workers s ! i) \<Longrightarrow> p_workers s' = (p_workers s)[i := x] \<Longrightarrow>
    nw_sent (p_world s') = nw_sent (p_world s) \<Longrightarrow> p_taken s' = p_taken s \<Longrightarrow> matched fp s'"
  by (rule matched_worker [where ns = "[]" and ms = "[]" and ts = "[]"]) auto

lemma matched_same:
  "matched fp s \<Longrightarrow> p_workers s' = p_workers s \<Longrightarrow> nw_sent (p_world s') = nw_sent (p_world s) \<Longrightarrow>
    p_taken s' = p_taken s \<Longrightarrow> matched fp s'"
  by (simp add: matched_def)

lemma reader_frame [simp]:
  "p_workers (close_requests s) = p_workers s" "p_world (close_requests s) = p_world s" "p_taken (close_requests s) = p_taken s"
  "p_workers (reader_read rd s) = p_workers s" "p_world (reader_read rd s) = p_world s" "p_taken (reader_read rd s) = p_taken s"
  by (auto simp: close_requests_def reader_read_def Let_def split: read_result.split)

lemma busy_belongs:
  "matched fp s \<Longrightarrow> i < length (p_workers s) \<Longrightarrow> p_workers s ! i = WBusy r pc \<Longrightarrow> belongs fp r pc"
  unfolding matched_def by (metis nth_mem)

lemma pool_step_matched: "pool_step (nack_pool fp P sv) s s' \<Longrightarrow> matched fp s \<Longrightarrow> matched fp s'"
proof (induction rule: pool_step.induct)
  case (take_req s i r rs)
  show ?case
    by (rule matched_worker [where s = s and ns = "[]" and ms = "[]" and ts = "[r]" and i = i])
      (use take_req in \<open>auto simp: held_def nack_pool_def split: prod.split\<close>)
next
  case (worker_ctx s i)
  show ?case by (rule matched_move [where s = s and i = i]) (use worker_ctx in \<open>auto simp: held_def\<close>)
next
  case (worker_closed s i)
  show ?case by (rule matched_move [where s = s and i = i]) (use worker_closed in \<open>auto simp: held_def\<close>)
next
  case (handle s i r pc pc' w')
  then obtain env where "nack_step fp P sv env pc (p_world s) = Inr (Some pc', w')" "belongs fp r pc"
    using busy_belongs [of fp s i r pc] by (auto simp: nack_pool_def nack_handle_def)
  from nack_step_sends [OF this]
  have step: "belongs fp r pc'" "nw_sent w' = nw_sent (p_world s)" by simp_all
  show ?case
    by (rule matched_move [where s = s and i = i]) (use handle step in \<open>auto simp: held_def\<close>)
next
  case (handle_return s i r pc w')
  then obtain env where "nack_step fp P sv env pc (p_world s) = Inr (None, w')" "belongs fp r pc"
    using busy_belongs [of fp s i r pc] by (auto simp: nack_pool_def nack_handle_def)
  from nack_step_sends [OF this]
  consider "nw_sent w' = nw_sent (p_world s)" | m where "answers fp r m" "nw_sent w' = nw_sent (p_world s) @ [m]" by auto
  then show ?case
  proof cases
    case 1
    show ?thesis
      by (rule matched_move [where s = s and i = i]) (use handle_return 1 in \<open>auto simp: held_def\<close>)
  next
    case 2
    show ?thesis
      by (rule matched_worker [where s = s and ns = "[r]" and ms = "[m]" and ts = "[]" and i = i])
        (use handle_return 2 in \<open>auto simp: held_def\<close>)
  qed
qed (rule matched_same, assumption, simp_all add: nack_pool_def)+

interpretation npw: request_handler "nack_pool fp P sv"
    "\<lambda>w. limiter_sane (nw_lim w) \<and> limiter_wf (nw_lim w)" pc_rank 10 for fp P sv
proof
  fix w :: "('c, 'a) nack_world" and pc res
  assume "limiter_sane (nw_lim w) \<and> limiter_wf (nw_lim w)" "po_step (nack_pool fp P sv) pc w res"
  then show "\<exists>pc' w'. res = Inr (pc', w') \<and> (limiter_sane (nw_lim w') \<and> limiter_wf (nw_lim w'))
      \<and> (\<forall>q. pc' = Some q \<longrightarrow> pc_rank q < pc_rank pc)"
    using nack_step_ok [of w fp P sv _ pc] by (fastforce simp: nack_pool_def nack_handle_def keeps_limiter_def)
qed (auto simp: nack_pool_def nack_handle_def)

lemma server_start_good:
  "server_start listen sv w = Inr s0 \<Longrightarrow> limiter_sane (nw_lim w) \<Longrightarrow> np.good s0"
  by (auto simp: server_start_def intro: np.start_good split: if_splits)

lemma pool_rank_bound: "pool_rank 10 pc_rank s \<le> 16 + 12 * length (p_chan s) + 12 * length (p_workers s)"
proof -
  have "reader_rank 10 r \<le> 16" for r by (cases r) auto
  moreover have "sum_list (map (worker_rank pc_rank) ws) \<le> 12 * length ws" for ws
  proof (induction ws)
    case (Cons x ws)
    then show ?case using pc_rank_bound by (cases x) (auto simp: add_le_mono)
  qed simp
  ultimately show ?thesis unfolding pool_rank_def by (simp add: add_le_mono)
qed

section \<open>A handler that runs alone\<close>

text \<open>The pool can let one handler run without interruption; it then does what \<open>processNACK\<close> does.\<close>

lemma pool_exec:
  "nack_exec fp P sv env n pc (p_world s) = Some (Inr w') \<Longrightarrow> p_panic s = None \<Longrightarrow> i < length (p_workers s) \<Longrightarrow>
    p_workers s ! i = WBusy r pc \<Longrightarrow>
    (pool_step (nack_pool fp P sv))\<^sup>*\<^sup>* s (s\<lparr>p_workers := (p_workers s)[i := WIdle], p_world := w'\<rparr>)"
proof (induction n arbitrary: s pc)
  case (Suc n)
  then obtain q w1 where st: "nack_step fp P sv env pc (p_world s) = Inr (q, w1)" by (auto split: sum.splits)
  then have po: "po_step (nack_pool fp P sv) pc (p_world s) (Inr (q, w1))"
    by (auto simp: nack_pool_def nack_handle_def) (metis st)
  show ?case
  proof (cases q)
    case None
    then show ?thesis using Suc.prems st pool_step.handle_return [OF Suc.prems(2-4)] po by auto
  next
    case (Some pc')
    let ?s1 = "s\<lparr>p_workers := (p_workers s)[i := WBusy r pc'], p_world := w1\<rparr>"
    have "pool_step (nack_pool fp P sv) s ?s1" using pool_step.handle [OF Suc.prems(2-4)] po Some by simp
    moreover have "(pool_step (nack_pool fp P sv))\<^sup>*\<^sup>* ?s1 (?s1\<lparr>p_workers := (p_workers ?s1)[i := WIdle], p_world := w'\<rparr>)"
      using Suc.prems st Some by (intro Suc.IH) simp_all
    ultimately show ?thesis by (simp add: converse_rtranclp_into_rtranclp)
  qed
qed simp

lemma pool_handles:
  assumes "processNACK fp P sv env d src (p_world s) = Inr w'" "p_panic s = None" "i < length (p_workers s)"
    and "p_workers s ! i = WIdle" "p_chan s = (d, src) # rs"
  shows "(pool_step (nack_pool fp P sv))\<^sup>*\<^sup>* s (s\<lparr>p_chan := rs, p_taken := p_taken s @ [(d, src)],
    p_workers := (p_workers s)[i := WIdle], p_world := w'\<rparr>)"
proof -
  let ?s1 = "s\<lparr>p_workers := (p_workers s)[i := WBusy (d, src) (NRecv d src)], p_chan := rs, p_taken := p_taken s @ [(d, src)]\<rparr>"
  have "pool_step (nack_pool fp P sv) s ?s1"
    using pool_step.take_req [OF assms(2-5), of "nack_pool fp P sv"] by (simp add: nack_pool_def)
  moreover have "(pool_step (nack_pool fp P sv))\<^sup>*\<^sup>* ?s1 (?s1\<lparr>p_workers := (p_workers ?s1)[i := WIdle], p_world := w'\<rparr>)"
    using assms by (intro pool_exec [where n = 10 and env = env]) (simp_all add: handler_steps_are_handler)
  ultimately show ?thesis by (simp add: converse_rtranclp_into_rtranclp)
qed

text \<open>A NACK for a frame the cache does not have, from its arrival to the response.\<close>

definition ex_requester :: udp_addr where
  "ex_requester = \<lparr>ua_ip = [], ua_port = 5\<rparr>"

definition ex_pool :: "(nack_pc, (unit, int) nack_world) pool" where
  "ex_pool = pool_start 4 (ex_world 2)"

lemma ex_pool_start: "server_start (\<lambda>_. None) (server_New 9300 4) (ex_world 2) = Inr ex_pool"
  by (simp add: server_start_def server_New_def ex_pool_def ex_world_def)

lemma ex_miss_run:
  "\<exists>w'. processNACK ex_frame ex_rate (server_New 9300 4) (ex_env None) (ex_nack 7 9) (Some ex_requester) (ex_world 2) = Inr w'
    \<and> nw_sent w' = [(ex_requester, response_bytes ex_frame msgTypeMISS 0 0)]"
proof -
  obtain lm where "pre_tiers ex_rate (ex_env None) (src_ip (Some ex_requester)) 7 9 (ex_limiter 2) = Inr (None, lm)"
    using ex_pre_tiers [of 2] by fastforce
  then have "processNACK ex_frame ex_rate (server_New 9300 4) (ex_env None) (ex_nack 7 9) (Some ex_requester) (ex_world 2)
      = Inr (serve_nack ex_frame ex_rate (server_New 9300 4) (ex_env None) (Some ex_requester) (src_ip (Some ex_requester)) 7 9
          (ex_world 2\<lparr>nw_rec := on_rec rec_NACKRequest (nw_rec (ex_world 2)), nw_lim := lm\<rparr>))"
    using processNACK_admitted [of ex_frame "ex_nack 7 9" ex_rate "ex_env None" "Some ex_requester" "ex_world 2" lm "server_New 9300 4"]
    by (simp add: ex_nack_fields) (simp add: ex_world_def)
  then show ?thesis by (simp add: serve_nack_outcome) (simp add: ex_env_def ex_world_def server_New_def respond_def)
qed

lemma ex_pool_run:
  "\<exists>s. (pool_step (nack_pool ex_frame ex_rate (server_New 9300 4)))\<^sup>*\<^sup>* ex_pool s
    \<and> p_taken s = [(ex_nack 7 9, Some ex_requester)]
    \<and> nw_sent (p_world s) = [(ex_requester, response_bytes ex_frame msgTypeMISS 0 0)]"
proof -
  let ?step = "pool_step (nack_pool ex_frame ex_rate (server_New 9300 4))" and ?r = "(ex_nack 7 9, Some ex_requester)"
  let ?s1 = "ex_pool\<lparr>p_reader := RRead\<rparr>"
  let ?s2 = "ex_pool\<lparr>p_reader := REnq ?r, p_recv := [?r]\<rparr>"
  let ?s3 = "?s2\<lparr>p_reader := RLoop, p_chan := [?r]\<rparr>"
  have s0: "p_panic ex_pool = None" "p_reader ex_pool = RLoop" "\<not> p_ctx ex_pool" "\<not> p_closed ex_pool" "p_chan ex_pool = []"
    "p_workers ex_pool = replicate 4 WIdle" "p_world ex_pool = ex_world 2" "p_recv ex_pool = []" "p_taken ex_pool = []"
    by (simp_all add: ex_pool_def pool_start_def)
  have "?step ex_pool ?s1" using s0 by (intro pool_step.top_read)
  moreover have "?step ?s1 ?s2"
    using pool_step.read [of ?s1 "nack_pool ex_frame ex_rate (server_New 9300 4)" "ReadData (ex_nack 7 9) (Some ex_requester)"] s0
    by (simp add: reader_read_def NACKSize_def ex_nack_fields Let_def)
  moreover have "?step ?s2 ?s3" using pool_step.send [of ?s2 ?r] s0 by (simp add: chan_cap_def)
  ultimately have reach: "?step\<^sup>*\<^sup>* ex_pool ?s3" by (meson converse_rtranclp_into_rtranclp rtranclp.rtrancl_refl)
  obtain w' where w': "processNACK ex_frame ex_rate (server_New 9300 4) (ex_env None) (ex_nack 7 9) (Some ex_requester) (p_world ?s3) = Inr w'"
    "nw_sent w' = [(ex_requester, response_bytes ex_frame msgTypeMISS 0 0)]" using ex_miss_run s0 by auto
  let ?s4 = "?s3\<lparr>p_chan := [], p_taken := p_taken ?s3 @ [?r], p_workers := (p_workers ?s3)[0 := WIdle], p_world := w'\<rparr>"
  have "?step\<^sup>*\<^sup>* ?s3 ?s4" by (rule pool_handles [OF w'(1)]) (simp_all add: s0)
  with reach have "?step\<^sup>*\<^sup>* ex_pool ?s4" by (rule rtranclp_trans)
  moreover have "p_taken ?s4 = [?r]" "nw_sent (p_world ?s4) = [(ex_requester, response_bytes ex_frame msgTypeMISS 0 0)]"
    by (simp_all add: s0 w'(2))
  ultimately show ?thesis by blast
qed

section \<open>Properties\<close>

text \<open>C3: From a started server whose limiter maxima are allocatable, whatever the network, the scheduler and
  the canceller do: no goroutine panics (in particular nothing is sent on the closed channel and it
  is closed once), the queue never exceeds its capacity, workers see only 64-byte datagrams, and the
  channel is closed only after the cancellation.\<close>

theorem pool_never_panics:
  assumes "sane (sq_max (sequenceLim (nw_lim w)))" "sane (sw_max (chainLimiter (nw_lim w)))"
    and "server_start listen sv w = Inr s0" "(pool_step (nack_pool fp P sv))\<^sup>*\<^sup>* s0 s"
  shows "p_panic s = None \<and> length (p_chan s) \<le> 100 \<and> (\<forall>r \<in> set (p_taken s). length (fst r) = 64)
    \<and> (p_closed s \<longrightarrow> p_ctx s)"
proof -
  have "np.good s0" using assms(1,2) by (intro server_start_good [OF assms(3)]) (simp add: limiter_sane_def)
  then have "np.good s" using np.reach_good assms(4) by blast
  then show ?thesis by (auto simp: np.good_def pool_inv_def chan_cap_def NACKSize_def prefix_def)
qed

theorem pool_never_panics_witness:
  "\<exists>s0 s. server_start (\<lambda>_. None) (server_New 9300 4) (ex_world 1) = Inr s0
    \<and> (pool_step (nack_pool ex_frame ex_rate (server_New 9300 4)))\<^sup>*\<^sup>* s0 s \<and> p_ctx s \<and> p_panic s = None"
proof -
  let ?sv = "server_New 9300 4"
  obtain s0 where s0: "server_start (\<lambda>_. None) ?sv (ex_world 1) = Inr s0"
    "s0 = pool_start 4 (ex_world 1\<lparr>nw_rec := on_rec rec_WorkerReady (nw_rec (ex_world 1))\<rparr>)"
    by (simp add: server_start_def server_New_def)
  have "p_panic s0 = None" "\<not> p_ctx s0" by (simp_all add: s0(2) pool_start_def)
  then have reach: "(pool_step (nack_pool ex_frame ex_rate ?sv))\<^sup>*\<^sup>* s0 (s0\<lparr>p_ctx := True\<rparr>)"
    by (intro r_into_rtranclp pool_step.cancel)
  have "sane (sq_max (sequenceLim (nw_lim (ex_world 1))))" "sane (sw_max (chainLimiter (nw_lim (ex_world 1))))"
    by (simp_all add: ex_world_def ex_limiter_def newSequenceLimiter_def newSlidingWindowLimiter_def sane_def)
  from pool_never_panics [OF this s0(1) reach] show ?thesis
    using s0(1) reach by (intro exI [of _ s0] exI [of _ "s0\<lparr>p_ctx := True\<rparr>"]) simp
qed

text \<open>C8: Requests are handled in the order they were accepted and at most once: what the workers have taken,
  then what is queued, is a prefix of the accepted requests, and until the channel is closed nothing accepted is
  lost.\<close>

theorem pool_fifo_at_most_once:
  assumes "server_start listen sv w = Inr s0" "(pool_step ops)\<^sup>*\<^sup>* s0 s"
  shows "prefix (p_taken s @ p_chan s) (p_recv s)
    \<and> (\<not> p_closed s \<longrightarrow> p_recv s = p_taken s @ p_chan s @ (case p_reader s of REnq r \<Rightarrow> [r] | _ \<Rightarrow> []))"
proof -
  have "pool_inv s0" using assms(1) by (auto simp: server_start_def pool_inv_start split: if_splits)
  with assms(2) have "pool_inv s"
    by (induction rule: rtranclp_induct) (auto intro: pool_step_inv)
  then show ?thesis by (auto simp: pool_inv_def in_hand_def prefix_def)
qed

theorem pool_fifo_at_most_once_witness:
  "\<exists>s0 s. server_start (\<lambda>_. None) (server_New 9300 4) (ex_world 1) = Inr s0
    \<and> (pool_step (nack_pool ex_frame ex_rate (server_New 9300 4)))\<^sup>*\<^sup>* s0 s
    \<and> p_recv s = [(replicate 64 0, None)] \<and> p_taken s @ p_chan s = []"
proof -
  let ?sv = "server_New 9300 4" and ?w = "ex_world 1\<lparr>nw_rec := on_rec rec_WorkerReady (nw_rec (ex_world 1))\<rparr>"
  let ?ops = "nack_pool ex_frame ex_rate ?sv"
  let ?s0 = "pool_start 4 ?w :: (nack_pc, (unit, int) nack_world) pool"
  have s0: "server_start (\<lambda>_. None) ?sv (ex_world 1) = Inr ?s0" by (simp add: server_start_def server_New_def)
  let ?s1 = "?s0\<lparr>p_reader := RRead\<rparr>"
  let ?s2 = "reader_read (ReadData (replicate 70 0) None) ?s1"
  have "pool_step ?ops ?s0 ?s1" "pool_step ?ops ?s1 ?s2"
    by (intro pool_step.top_read pool_step.read; simp add: pool_start_def)+
  then have reach: "(pool_step ?ops)\<^sup>*\<^sup>* ?s0 ?s2" by simp
  moreover have "p_recv ?s2 = [(replicate 64 0, None)]" "p_reader ?s2 = REnq (replicate 64 0, None)" "\<not> p_closed ?s2"
    by (simp_all add: reader_read_def NACKSize_def pool_start_def Let_def)
  ultimately show ?thesis using s0 pool_fifo_at_most_once [OF s0 reach] by (intro exI [of _ ?s0] exI [of _ ?s2]) simp
qed

text \<open>C7: Shutdown ends.  Once the context is cancelled only boundedly many steps are left, at most
  16 plus 12 for each queued request and each worker (a handler has at most 10 steps), and the only state without a further step is the one in
  which \<open>Run\<close> has returned: every worker has exited and none is left holding a request.\<close>

theorem pool_shutdown_terminates:
  assumes "sane (sq_max (sequenceLim (nw_lim w)))" "sane (sw_max (chainLimiter (nw_lim w)))"
    and "server_start listen sv w = Inr s0" "(pool_step (nack_pool fp P sv))\<^sup>*\<^sup>* s0 s" "p_ctx s"
    and "(pool_step (nack_pool fp P sv) ^^ n) s s'"
  shows "n \<le> 16 + 12 * length (p_chan s) + 12 * length (p_workers s)
    \<and> ((\<nexists>t. pool_step (nack_pool fp P sv) s' t) \<longrightarrow> p_reader s' = RDone \<and> set (p_workers s') \<subseteq> {WExit})"
proof -
  have "np.good s0" using assms(1,2) by (intro server_start_good [OF assms(3)]) (simp add: limiter_sane_def)
  then have "np.good s" using np.reach_good assms(4) by blast
  then have s': "np.good s'" "p_ctx s'" "n \<le> pool_rank 10 pc_rank s"
    using np.steps_bounded [OF assms(6)] assms(5) by auto
  note pool_rank_bound [of s]
  moreover have "(\<nexists>t. pool_step (nack_pool fp P sv) s' t) \<longrightarrow> p_reader s' = RDone"
    using np.stuck_is_done s' by blast
  ultimately show ?thesis using s' by (auto simp: np.good_def pool_inv_def)
qed

theorem pool_shutdown_terminates_witness:
  "\<exists>s0 s. server_start (\<lambda>_. None) (server_New 9300 4) (ex_world 1) = Inr s0
    \<and> pool_step (nack_pool ex_frame ex_rate (server_New 9300 4)) s0 s
    \<and> (\<forall>n s'. (pool_step (nack_pool ex_frame ex_rate (server_New 9300 4)) ^^ n) s s' \<longrightarrow> n \<le> 64)"
proof -
  let ?sv = "server_New 9300 4"
  let ?init = "pool_start 4 (ex_world 1\<lparr>nw_rec := on_rec rec_WorkerReady (nw_rec (ex_world 1))\<rparr>) :: (nack_pc, (unit, int) nack_world) pool"
  let ?t = "?init\<lparr>p_ctx := True\<rparr>"
  have s0: "server_start (\<lambda>_. None) ?sv (ex_world 1) = Inr ?init" by (simp add: server_start_def server_New_def)
  have step: "pool_step (nack_pool ex_frame ex_rate ?sv) ?init ?t"
    by (rule pool_step.cancel) (simp_all add: pool_start_def)
  have reach: "(pool_step (nack_pool ex_frame ex_rate ?sv))\<^sup>*\<^sup>* ?init ?t" using step by (rule r_into_rtranclp)
  have sane: "sane (sq_max (sequenceLim (nw_lim (ex_world 1))))" "sane (sw_max (chainLimiter (nw_lim (ex_world 1))))"
    by (simp_all add: ex_world_def ex_limiter_def newSequenceLimiter_def newSlidingWindowLimiter_def sane_def)
  have "n \<le> 64" if "(pool_step (nack_pool ex_frame ex_rate ?sv) ^^ n) ?t s'" for n s'
    using pool_shutdown_terminates [OF sane s0 reach _ that] by (simp add: pool_start_def)
  then show ?thesis using s0 step by blast
qed

text \<open>C11: Every interleaving of the handlers answers honestly to the right requester.  The response datagrams sent so far
  can be matched one to one with requests the workers have taken, so no request is answered twice: each goes
  to the source of its request, which was a well-formed NACK for one SeqNum, and is a MISS or the ACK of exactly that SeqNum.\<close>

theorem pool_answers_own_requests:
  assumes "server_start listen sv w = Inr s0" "nw_sent w = []" "(pool_step (nack_pool fp P sv))\<^sup>*\<^sup>* s0 s"
  shows "\<exists>rs. mset rs \<subseteq># mset (p_taken s) \<and> list_all2 (\<lambda>(d, src) (a, b). src = Some a
      \<and> validateNACK fp d = None \<and> nack_end d = nack_start d
      \<and> (b = response_bytes fp msgTypeMISS 0 0 \<or> b = response_bytes fp msgTypeACK 1 (nack_start d)))
    rs (nw_sent (p_world s))"
proof -
  have "matched fp s0" using assms(1,2)
    by (auto simp: server_start_def pool_start_def matched_def held_idle split: if_splits)
  with assms(3) have "matched fp s" by (induction rule: rtranclp_induct) (auto intro: pool_step_matched)
  then obtain rs where rs: "list_all2 (answers fp) rs (nw_sent (p_world s))"
    "mset rs + sum_list (map held (p_workers s)) \<subseteq># mset (p_taken s)" by (auto simp: matched_def)
  have "mset rs \<subseteq># mset (p_taken s)" using mset_subset_eq_add_left rs(2) by (rule subset_mset.order_trans)
  then show ?thesis using rs(1) by (intro exI [of _ rs] conjI list_all2_mono [OF rs(1)]) (auto simp: answers_def)
qed

theorem pool_answers_own_requests_witness:
  "\<exists>s rs. (pool_step (nack_pool ex_frame ex_rate (server_New 9300 4)))\<^sup>*\<^sup>* ex_pool s
    \<and> nw_sent (p_world s) = [(ex_requester, response_bytes ex_frame msgTypeMISS 0 0)]
    \<and> rs = [(ex_nack 7 9, Some ex_requester)] \<and> mset rs \<subseteq># mset (p_taken s)"
proof -
  obtain s where s: "(pool_step (nack_pool ex_frame ex_rate (server_New 9300 4)))\<^sup>*\<^sup>* ex_pool s"
    "p_taken s = [(ex_nack 7 9, Some ex_requester)]"
    "nw_sent (p_world s) = [(ex_requester, response_bytes ex_frame msgTypeMISS 0 0)]" using ex_pool_run by blast
  have "nw_sent (ex_world 2) = []" by (simp add: ex_world_def)
  from pool_answers_own_requests [OF ex_pool_start this s(1)] obtain rs where
    "mset rs \<subseteq># mset (p_taken s)" "length rs = 1" unfolding s(3) by (auto dest: list_all2_lengthD)
  then have "rs = [(ex_nack 7 9, Some ex_requester)]" using s(2) by (auto simp: length_Suc_conv)
  then show ?thesis using s by auto
qed

text \<open>C15: The shared limiter stays well-formed through every interleaving of the handlers' critical sections: in every
  reachable state its four maps have one entry per key, and no window holds more timestamps than its maximum.\<close>

theorem pool_state_well_formed:
  assumes "limiter_sane (nw_lim w)" "limiter_wf (nw_lim w)"
    and "server_start listen sv w = Inr s0" "(pool_step (nack_pool fp P sv))\<^sup>*\<^sup>* s0 s" "lm = nw_lim (p_world s)"
  shows "distinct (map fst (tb_limit (ipLimiter lm))) \<and> distinct (map fst (tb_limit (groupLimiter lm)))
    \<and> distinct (map fst (sw_keys (chainLimiter lm))) \<and> distinct (map fst (sq_seqs (sequenceLim lm)))
    \<and> int (length (sw_stamps (chainLimiter lm) k)) \<le> sw_max (chainLimiter lm)
    \<and> int (length (sq_stamps (sequenceLim lm) q)) \<le> sq_max (sequenceLim lm)"
proof -
  have "npw.good s0" using assms(1-3) by (auto simp: server_start_def intro: npw.start_good split: if_splits)
  then have "npw.good s" using npw.reach_good assms(4) by blast
  then have "limiter_wf lm" using assms(5) by (simp add: npw.good_def)
  then show ?thesis by (simp add: limiter_wf_def)
qed

theorem pool_state_well_formed_witness:
  "\<exists>s. (pool_step (nack_pool ex_frame ex_rate (server_New 9300 4)))\<^sup>*\<^sup>* ex_pool s \<and> nw_sent (p_world s) \<noteq> []
    \<and> int (length (sq_stamps (sequenceLim (nw_lim (p_world s))) 9)) \<le> sq_max (sequenceLim (nw_lim (p_world s)))"
proof -
  obtain s where s: "(pool_step (nack_pool ex_frame ex_rate (server_New 9300 4)))\<^sup>*\<^sup>* ex_pool s" "nw_sent (p_world s) \<noteq> []"
    using ex_pool_run by fastforce
  have "limiter_sane (nw_lim (ex_world 2))" "limiter_wf (nw_lim (ex_world 2))"
    by (simp_all add: limiter_sane_def limiter_wf_def ex_world_def ex_limiter_def newTokenBucketLimiter_def newSequenceLimiter_def
        newSlidingWindowLimiter_def sane_def sq_stamps_def sw_stamps_def)
  from pool_state_well_formed [OF this ex_pool_start s(1) refl] show ?thesis using s by blast
qed

end
