(* ===== verification/Startup.thy ===== *)
theory Startup
  imports Config Beacon Retransmit Ingress Worker_Pool
begin

text \<open>
  The wiring of \<open>src/main.go\<close>: the instance id (CRC-32C), the choice of the advertised NACK address, the
  choice of the cache backend and of the dedup client, the multicast groups of the ingress worker,
  the parameters each component is built with, readiness and draining.  Interfaces and their addresses are looked up several times, by
  \<open>Load\<close>, by \<open>run\<close> and again for the beacon, and each time may give another answer.  The goroutines themselves are the
  component theories' runs.
\<close>

section \<open>Instance id\<close>

text \<open>\<open>crc32.MakeTable(crc32.Castagnoli)\<close> and \<open>crc32.Checksum\<close>: the table-driven algorithm on the
  reflected polynomial.\<close>

definition Castagnoli :: u32 where "Castagnoli = 0x82F63B78"

definition crc_shift :: "u32 \<Rightarrow> u32" where
  "crc_shift c = (if c AND 1 = 1 then drop_bit 1 c XOR Castagnoli else drop_bit 1 c)"

definition crc_table :: "nat \<Rightarrow> u32" where
  "crc_table i = (crc_shift ^^ 8) (of_nat i)"

definition crc_update :: "u32 \<Rightarrow> bytes \<Rightarrow> u32" where
  "crc_update crc p = not (foldl (\<lambda>c v. crc_table (unat ((ucast c :: byte) XOR v)) XOR drop_bit 8 c) (not crc) p)"

definition hashInstanceID :: "bytes \<Rightarrow> u32" where
  "hashInstanceID s = (let h = crc_update 0 s in if h = 0 then 1 else h)"

section \<open>The advertised address\<close>

text \<open>\<open>net.IP.IsGlobalUnicast\<close> and the predicates it uses.\<close>

definition IsLoopback :: "ip \<Rightarrow> bool" where
  "IsLoopback a \<longleftrightarrow> (case To4 a of Some p \<Rightarrow> p ! 0 = 127 | None \<Rightarrow> a = replicate 15 0 @ [1])"

definition IsMulticast :: "ip \<Rightarrow> bool" where
  "IsMulticast a \<longleftrightarrow> (case To4 a of Some p \<Rightarrow> p ! 0 AND 0xF0 = 0xE0 | None \<Rightarrow> length a = 16 \<and> a ! 0 = 0xFF)"

definition IsLinkLocalUnicast :: "ip \<Rightarrow> bool" where
  "IsLinkLocalUnicast a \<longleftrightarrow> (case To4 a of Some p \<Rightarrow> p ! 0 = 169 \<and> p ! 1 = 254
     | None \<Rightarrow> length a = 16 \<and> a ! 0 = 0xFE \<and> a ! 1 AND 0xC0 = 0x80)"

definition IsUnspecified :: "ip \<Rightarrow> bool" where
  "IsUnspecified a \<longleftrightarrow> To4 a = Some (replicate 4 0) \<or> a = IPv6unspecified"

definition IsGlobalUnicast :: "ip \<Rightarrow> bool" where
  "IsGlobalUnicast a \<longleftrightarrow> (length a = 4 \<or> length a = 16) \<and> To4 a \<noteq> Some (replicate 4 255)
     \<and> \<not> IsUnspecified a \<and> \<not> IsLoopback a \<and> \<not> IsMulticast a \<and> \<not> IsLinkLocalUnicast a"

text \<open>The addresses of an interface, by the dynamic type of the \<open>net.Addr\<close>.\<close>

datatype net_addr = IPNet ip | IPAddr ip | OtherAddr

fun addr_ip :: "net_addr \<Rightarrow> ip" where
  "addr_ip (IPNet a) = a"
| "addr_ip (IPAddr a) = a"
| "addr_ip OtherAddr = []"

fun first_global :: "net_addr list \<Rightarrow> err + ip option" where
  "first_global [] = Inl (Err ''no global-unicast IPv6 address'')"
| "first_global (a # as) =
     (let i = addr_ip a
      in if i = [] \<or> To4 i \<noteq> None then first_global as
         else if IsGlobalUnicast i \<and> \<not> IsLinkLocalUnicast i then Inr (To16 i)
         else first_global as)"

text \<open>The address is \<open>None\<close> where the source's \<open>To16()\<close> is nil.\<close>

definition pickBeaconNACKAddr :: "bytes \<Rightarrow> (err + net_addr list) \<Rightarrow> err + ip option" where
  "pickBeaconNACKAddr explicit addrs =
     (if explicit \<noteq> [] then
        (case ParseIP explicit of None \<Rightarrow> Inl (Err ''invalid nack-addr'') | Some i \<Rightarrow> Inr (To16 i))
      else case addrs of
          Inl e \<Rightarrow> Inl (Err ''iface addrs'')
        | Inr as \<Rightarrow> first_global as)"

section \<open>The cache backend\<close>

datatype 's backend = BMemory "slice memcache" | BRedis "'s rediscache"

text \<open>The backend and the Redis cache of the dedup gate, if there is one.  With the Redis backend they
  are the same object.\<close>

definition build_cache :: "(bytes \<Rightarrow> 's redis_client) \<Rightarrow> config \<Rightarrow> 's \<Rightarrow> err + ('s backend \<times> 's rediscache option)" where
  "build_cache connect cfg s =
     (if CacheBackend cfg = str ''redis'' then
        (if RedisAddr cfg = [] then Inl (Err ''REDIS_ADDR required when CACHE_BACKEND=redis'')
         else case redis_New connect (RedisAddr cfg) (str ''bre:frame:'') s of
             Inl e \<Rightarrow> Inl e
           | Inr rc \<Rightarrow> Inr (BRedis rc, Some rc))
      else let c = mem_New (CacheMaxKeys cfg)
           in if RedisAddr cfg \<noteq> [] then
                (case redis_New connect (RedisAddr cfg) (str ''bre:dedup:'') s of
                   Inl e \<Rightarrow> Inr (BMemory c, None)
                 | Inr rc \<Rightarrow> Inr (BMemory c, Some rc))
              else Inr (BMemory c, None))"

section \<open>The parameters of the components\<close>

definition build_engine :: "shard_pkg \<Rightarrow> config \<Rightarrow> shard_engine" where
  "build_engine sp cfg = sp_New sp (MCPrefix cfg) (MCGroupID cfg) (unat (ShardBits cfg))"

definition build_limiter_config :: "config \<Rightarrow> rl_config" where
  "build_limiter_config cfg = \<lparr>IPRate = RLIPRate cfg, IPBurst = RLIPBurst cfg, SenderRate = RLSenderRate cfg,
     SenderWindow = RLSenderWindow cfg, ChainRate = RLChainRate cfg, ChainWindow = RLChainWindow cfg,
     SequenceMax = RLSequenceMax cfg, SequenceWindow = RLSequenceWindow cfg,
     GroupRate = RLGroupRate cfg, GroupBurst = RLGroupBurst cfg\<rparr>"

text \<open>\<open>nackBindIP.String()\<close> of a nil address is \<open>"<nil>"\<close>, the string of an empty one.\<close>

definition build_server :: "config \<Rightarrow> shard_engine \<Rightarrow> ip option \<Rightarrow> server" where
  "build_server cfg engine nackBindIP =
     SetShardEngine engine (SetSuppressMISS (SuppressMISS cfg) (SetSuppressACK (SuppressACK cfg)
       (SetBindAddr (IP_String (case nackBindIP of None \<Rightarrow> [] | Some i \<Rightarrow> i))
         (server_New (NACKPort cfg) (NACKWorkers cfg)))))"

text \<open>One group per shard, the control group, and the subtree group when it is enabled.\<close>

definition buildGroups :: "shard_pkg \<Rightarrow> config \<Rightarrow> shard_engine \<Rightarrow> udp_addr list" where
  "buildGroups sp cfg engine =
     (let shards = map (\<lambda>i. se_Addr engine (of_nat i) (ListenPort cfg)) [0..<unat (NumGroups cfg)];
          ctrl = (\<lambda>g. \<lparr>ua_ip = sp_ControlGroupAddr sp (MCPrefix cfg) (MCGroupID cfg) g, ua_port = ListenPort cfg\<rparr>)
      in shards @ [ctrl (sp_CtrlGroupControl sp)]
         @ (if SubtreeDataEnabled cfg then [ctrl (sp_CtrlGroupSubtreeAnnounce sp)] else []))"

definition beacon_flags :: "config \<Rightarrow> u16" where
  "beacon_flags cfg =
     (let f0 = 0;
          f1 = (if BeaconFlagsUnicast cfg then f0 OR FlagUnicastRetransmit else f0);
          f2 = (if BeaconFlagsMulticast cfg then f1 OR FlagMulticastRetransmit else f1)
      in if BeaconFlagsDraining cfg then f2 OR FlagDraining else f2)"

text \<open>The beacon, with the host name as \<open>os.Hostname\<close> gives it.\<close>

definition build_beacon :: "config \<Rightarrow> bytes option \<Rightarrow> ip option \<Rightarrow> int \<Rightarrow> beacon_sender" where
  "build_beacon cfg hostname nackIP ifindex =
     (let host = (if InstanceID cfg = [] then (case hostname of Some h \<Rightarrow> h | None \<Rightarrow> InstanceID cfg) else InstanceID cfg)
      in beacon_New \<lparr>bc_NACKAddr = (case nackIP of None \<Rightarrow> [] | Some i \<Rightarrow> i), bc_NACKPort = word_of_int (NACKPort cfg),
           bc_Tier = ucast (BeaconTier cfg), bc_Preference = ucast (BeaconPreference cfg),
           bc_Interval = BeaconInterval cfg, bc_Scope = BeaconScopeByte cfg, bc_Flags = beacon_flags cfg,
           bc_InstanceID = hashInstanceID host, bc_GroupID = MCGroupID cfg, bc_Iface = Some ifindex\<rparr>)"

text \<open>The block that builds the beacon, after the server has been started: \<open>addr\<close> is the result of the second
  \<open>pickBeaconNACKAddr\<close>, whose error ends \<open>run\<close>.\<close>

definition start_beacon :: "config \<Rightarrow> bytes option \<Rightarrow> iface \<Rightarrow> (err + ip option) \<Rightarrow> err + beacon_sender option" where
  "start_beacon cfg hostname ifc addr =
     (if \<not> BeaconEnabled cfg then Inr None
      else case addr of
          Inl e \<Rightarrow> Inl (Err ''beacon'')
        | Inr nackIP \<Rightarrow> Inr (Some (build_beacon cfg hostname nackIP (if_Index ifc))))"

text \<open>\<open>net.InterfaceByName\<close> on the configured names, after \<open>Load\<close> has looked them up before: the first error ends \<open>run\<close>.\<close>

fun resolve_ifaces :: "(bytes \<Rightarrow> int option) \<Rightarrow> bytes list \<Rightarrow> err + iface list" where
  "resolve_ifaces byName [] = Inr []"
| "resolve_ifaces byName (n # ns) =
     (case byName n of
        None \<Rightarrow> Inl (Err ''no such network interface'')
      | Some i \<Rightarrow> (case resolve_ifaces byName ns of
           Inl e \<Rightarrow> Inl e
         | Inr is \<Rightarrow> Inr (\<lparr>if_Name = n, if_Index = i\<rparr> # is)))"

section \<open>Starting up\<close>

record ('s, 'b) app =
  a_cfg :: config
  a_rec :: recorder
  a_backend :: "'s backend"
  a_dedup :: "'s rediscache option"
  a_limiter :: "'b Limiter"
  a_retrans :: retransmitter
  a_server :: server
  a_worker :: worker
  a_egress :: "iface list"

text \<open>What the system provides to \<open>run\<close>: besides \<open>os_env\<close>, the clock, the metrics libraries, the Redis
  client, the sockets, and the interfaces and their addresses as they are at this time.\<close>

record 's run_env =
  ru_os :: os_env
  ru_now :: time
  ru_otel :: otel
  ru_connect :: "bytes \<Rightarrow> 's redis_client"
  ru_redis :: 's
  ru_sock :: "iface \<Rightarrow> sock_env"
  ru_close :: "nat \<Rightarrow> err option"
  ru_byName :: "bytes \<Rightarrow> int option"
  ru_addrs :: "iface \<Rightarrow> err + net_addr list"
  ru_oob :: "f64 \<Rightarrow> int"

text \<open>
  \<open>run\<close> up to the start of the goroutines: the components, or the error, with the descriptors open
  then.  An error after \<open>Open\<close> runs the deferred \<open>retrans.Close()\<close>; an error of \<open>Open\<close> itself comes
  before that \<open>defer\<close>.
\<close>

definition run_setup :: "shard_pkg \<Rightarrow> 's run_env \<Rightarrow> nat list \<Rightarrow> (err + ('s, 'b) app) \<times> nat list" where
  "run_setup sp ru fds =
     (case Load (ru_os ru) of
        Inl e \<Rightarrow> (Inl e, fds)
      | Inr cfg \<Rightarrow>
          (case rec_New (ru_otel ru) (InstanceID cfg) (NumWorkers cfg) (OTLPEndpoint cfg) (OTLPInterval cfg) (ru_now ru) of
             Inl e \<Rightarrow> (Inl e, fds)
           | Inr rc \<Rightarrow>
               let engine = build_engine sp cfg
               in (case build_cache (ru_connect ru) cfg (ru_redis ru) of
                    Inl e \<Rightarrow> (Inl e, fds)
                  | Inr (backend, dedup) \<Rightarrow>
                      let groups = buildGroups sp cfg engine
                      in (case ru_byName ru (MCIface cfg) of
                           None \<Rightarrow> (Inl (Err ''no such network interface''), fds)
                         | Some mcIndex \<Rightarrow>
                            (case resolve_ifaces (ru_byName ru) (EgressIfaces cfg) of
                             Inl e \<Rightarrow> (Inl e, fds)
                           | Inr ifs \<Rightarrow>
                               let rl = Limiter_New (ru_oob ru) (build_limiter_config cfg);
                                   rt = rt_New engine ifs (EgressPort cfg) (DedupWindow cfg)
                               in (case rt_Open (ru_sock ru) rt fds of
                                    (Some e, rt', fds') \<Rightarrow> (Inl e, fds')
                                  | (None, rt', fds') \<Rightarrow>
                                      (case pickBeaconNACKAddr (BeaconNACKAddr cfg) (ru_addrs ru (hd ifs)) of
                                         Inl e \<Rightarrow> (Inl (Err ''resolve nack bind address''), snd (rt_Close (ru_close ru) rt' fds'))
                                       | Inr nackIP \<Rightarrow>
                                           (Inr \<lparr>a_cfg = cfg, a_rec = rc, a_backend = backend, a_dedup = dedup,
                                              a_limiter = rl, a_retrans = rt',
                                              a_server = build_server cfg engine nackIP,
                                              a_worker = worker_New \<lparr>if_Name = MCIface cfg, if_Index = mcIndex\<rparr>
                                                (ListenPort cfg) groups (CacheTTL cfg),
                                              a_egress = ifs\<rparr>, fds'))))))))"

text \<open>The cache sampler: one tick, for a backend with a \<open>Len\<close> method.\<close>

definition sample_cache :: "'s backend \<Rightarrow> recorder \<Rightarrow> recorder" where
  "sample_cache b r = (case b of BMemory c \<Rightarrow> rec_CacheSize (mem_Len c) r | BRedis c \<Rightarrow> r)"

text \<open>The start of the shutdown: readiness is withdrawn when a drain time is configured.\<close>

definition start_drain :: "config \<Rightarrow> recorder \<Rightarrow> recorder" where
  "start_drain cfg r = (if DrainTimeout cfg > 0 then rec_SetDraining r else r)"

section \<open>Lemmas\<close>

lemma run_setup_app:
  assumes "run_setup sp ru fds = (Inr app, fds')"
  obtains mcIface nackIP where
    "Load (ru_os ru) = Inr (a_cfg app)"
    "build_cache (ru_connect ru) (a_cfg app) (ru_redis ru) = Inr (a_backend app, a_dedup app)"
    "resolve_ifaces (ru_byName ru) (EgressIfaces (a_cfg app)) = Inr (a_egress app)"
    "rt_Open (ru_sock ru) (rt_New (build_engine sp (a_cfg app)) (a_egress app) (EgressPort (a_cfg app)) (DedupWindow (a_cfg app))) fds
       = (None, a_retrans app, fds')"
    "rec_New (ru_otel ru) (InstanceID (a_cfg app)) (NumWorkers (a_cfg app)) (OTLPEndpoint (a_cfg app))
       (OTLPInterval (a_cfg app)) (ru_now ru) = Inr (a_rec app)"
    "a_limiter app = Limiter_New (ru_oob ru) (build_limiter_config (a_cfg app))"
    "a_server app = build_server (a_cfg app) (build_engine sp (a_cfg app)) nackIP"
    "a_worker app = worker_New mcIface (ListenPort (a_cfg app)) (buildGroups sp (a_cfg app) (build_engine sp (a_cfg app)))
       (CacheTTL (a_cfg app))"
    "pickBeaconNACKAddr (BeaconNACKAddr (a_cfg app)) (ru_addrs ru (hd (a_egress app))) = Inr nackIP"
  using assms
  by (auto simp: run_setup_def Let_def split: sum.splits if_splits prod.splits option.splits)

lemma rt_Open_keeps:
  "rt_Open env r fds = (e, r', fds') \<Longrightarrow> rt_engine r' = rt_engine r \<and> rt_egressPort r' = rt_egressPort r"
  by (auto simp: rt_Open_def split: prod.splits)

text \<open>A picked address is never nil.\<close>

lemma first_global_some: "first_global as = Inr r \<Longrightarrow> \<exists>i. r = Some i \<and> length i = 16"
  by (induction as) (auto simp: Let_def To16_def IsGlobalUnicast_def split: if_splits)

lemma pick_some: "pickBeaconNACKAddr explicit addrs = Inr r \<Longrightarrow> \<exists>i. r = Some i \<and> length i = 16"
  using first_global_some ParseIP_length [of explicit]
  by (cases "ParseIP explicit") (force simp: pickBeaconNACKAddr_def To16_def split: if_splits sum.splits)+

text \<open>Where a picked address comes from.\<close>

lemma To4_None_length: "To4 a = None \<Longrightarrow> length a \<noteq> 4"
  by (auto simp: To4_def)

lemma first_global_origin:
  "first_global as = Inr (Some i) \<Longrightarrow> IsGlobalUnicast i \<and> To4 i = None \<and> i \<in> addr_ip ` set as"
  by (induction as) (auto simp: Let_def To16_def dest: To4_None_length split: if_splits)

lemma pick_origin:
  assumes "pickBeaconNACKAddr explicit addrs = Inr (Some i)"
  shows "if explicit \<noteq> [] then ParseIP explicit = Some i
    else IsGlobalUnicast i \<and> To4 i = None \<and> (\<exists>as. addrs = Inr as \<and> i \<in> addr_ip ` set as)"
  using assms ParseIP_length [of explicit] first_global_origin
  by (auto simp: pickBeaconNACKAddr_def To16_def split: option.splits sum.splits if_splits)

lemma hashInstanceID_nonzero: "hashInstanceID s \<noteq> 0"
  by (simp add: hashInstanceID_def Let_def)

section \<open>An example start\<close>

text \<open>A start with the defaults on a host with one address.\<close>

definition ex_run :: "unit run_env" where
  "ex_run = \<lparr>ru_os = ex_os, ru_now = 0, ru_otel = ex_otel, ru_connect = undefined, ru_redis = (),
     ru_sock = \<lambda>_. \<lparr>so_listen = Inr 7, so_isUDP = True, so_file = Inr 8, so_setopt = \<lambda>_ _. None\<rparr>,
     ru_close = \<lambda>_. None, ru_byName = \<lambda>_. Some 2, ru_addrs = \<lambda>_. Inr [IPNet (replicate 16 32)], ru_oob = \<lambda>_. 0\<rparr>"

lemma ex_run_facts:
  "1 \<le> os_NumCPU (ru_os ex_run)" "\<And>d. EgressIfaces (fst (os_flagParse (ru_os ex_run) d)) = EgressIfaces (fst d)"
  by (simp_all add: ex_run_def ex_os_def)

lemma ex_engine_facts:
  "unat (se_GroupIndex (sp_New ex_shard p g bits) t) < 2 ^ bits"
  "se_Prefix (sp_New ex_shard p g bits) = p \<and> se_GroupID (sp_New ex_shard p g bits) = g"
  by (simp_all add: ex_shard_def ex_engine_def unsigned_take_bit_eq)

lemma ex_first_global: "first_global [IPNet (replicate 16 32)] = Inr (Some (replicate 16 32))"
proof -
  let ?a = "replicate 16 32 :: bytes"
  have 4: "To4 ?a = None" by (simp add: To4_def)
  have "hd ?a \<noteq> hd (replicate 15 0 @ [1])" by simp
  then have "?a \<noteq> replicate 15 0 @ [1]" by metis
  then have "IsGlobalUnicast ?a" "\<not> IsLinkLocalUnicast ?a"
    using 4 by (simp_all add: IsGlobalUnicast_def IsUnspecified_def IsLoopback_def IsMulticast_def
        IsLinkLocalUnicast_def IPv6unspecified_def)
  then show ?thesis using 4 by (simp add: To16_def Let_def)
qed

lemma ex_run_setup:
  "\<exists>(app :: (unit, int) app) fds'. run_setup ex_shard ex_run [] = (Inr app, fds')
    \<and> EgressPort (a_cfg app) = ListenPort (a_cfg app) \<and> BeaconEnabled (a_cfg app) \<and> BeaconNACKAddr (a_cfg app) = []
    \<and> RLSequenceMax (a_cfg app) = 100 \<and> RLChainRate (a_cfg app) = Fin 500"
proof -
  obtain c where c: "Load ex_os = Inr c" "EgressIfaces c = [str ''eth0'']" "CacheBackend c = str ''memory''"
    "RedisAddr c = []" "BeaconNACKAddr c = []" "EgressPort c = 9001" "ListenPort c = 9001" "BeaconEnabled c"
    "RLSequenceMax c = 100" "RLChainRate c = Fin 500" using ex_os_load by blast
  have "str ''memory'' \<noteq> str ''redis''" by (simp add: str_def)
  then have b: "build_cache (ru_connect ex_run) c () = Inr (BMemory (mem_New (CacheMaxKeys c)), None)"
    using c by (simp add: build_cache_def Let_def)
  have i: "ru_byName ex_run n = Some 2" "ru_os ex_run = ex_os" "ru_otel ex_run = ex_otel" for n
    by (simp_all add: ex_os_def ex_run_def)
  have o: "\<exists>rt' fds'. rt_Open (ru_sock ex_run) (rt_New e [\<lparr>if_Name = str ''eth0'', if_Index = 2\<rparr>] p w) []
      = (None, rt', fds')" for e p w
    by (simp add: rt_Open_def rt_New_def openEgressSocket_def ex_run_def)
  have p: "pickBeaconNACKAddr [] (ru_addrs ex_run f) = Inr (Some (replicate 16 32))" for f
    by (simp add: pickBeaconNACKAddr_def ex_run_def ex_first_global del: first_global.simps)
  obtain rt' fds' where "rt_Open (ru_sock ex_run) (rt_New (build_engine ex_shard c)
      [\<lparr>if_Name = str ''eth0'', if_Index = 2\<rparr>] 9001 (DedupWindow c)) [] = (None, rt', fds')" using o by blast
  moreover obtain r where "rec_New ex_otel (InstanceID c) (NumWorkers c) (OTLPEndpoint c) (OTLPInterval c) (ru_now ex_run) = Inr r"
    using ex_otel_New by blast
  ultimately show ?thesis using c b i p by (simp add: run_setup_def Let_def)
qed

section \<open>Properties\<close>

text \<open>C21: Whatever the endpoint retransmits goes to a group that an endpoint with the same configuration has
  joined, when it sends to the port it listens on and the shard engine numbers its groups below
  \<open>2 ^ bits\<close> and knows its own prefix and group id (as its package documents); only subtree frames
  need the subtree option.\<close>

theorem retransmissions_reach_joined_groups:
  assumes su: "run_setup sp ru fds = (Inr app, fds')" "1 \<le> os_NumCPU (ru_os ru)"
      "\<And>d. EgressIfaces (fst (os_flagParse (ru_os ru) d)) = EgressIfaces (fst d)"
    and ports: "EgressPort (a_cfg app) = ListenPort (a_cfg app)"
    and engine: "\<And>p g bits t. unat (se_GroupIndex (sp_New sp p g bits) t) < 2 ^ bits"
      "\<And>p g bits. se_Prefix (sp_New sp p g bits) = p \<and> se_GroupID (sp_New sp p g bits) = g"
    and subtree: "SubtreeDataEnabled (a_cfg app) \<or> length raw < 7 \<or> raw ! 6 \<noteq> fp_FrameVerV5 fp"
  shows "retransmit_group fp sp (a_retrans app) raw txID \<in> set (wk_groups (a_worker app))"
  using su(1)
proof (cases rule: run_setup_app)
  case (1 mcIface nackIP)
  let ?c = "a_cfg app" and ?e = "build_engine sp (a_cfg app)"
  have rt: "rt_engine (a_retrans app) = ?e" "rt_egressPort (a_retrans app) = ListenPort ?c"
    using rt_Open_keeps [OF 1(4)] ports by (simp_all add: rt_New_def)
  have n: "unat (NumGroups ?c) = 2 ^ unat (ShardBits ?c)" using load_facts [OF 1(1) su(2,3)] by blast
  have groups: "wk_groups (a_worker app) = buildGroups sp ?c ?e" using 1(8) by (simp add: worker_New_def)
  have "se_Addr ?e (se_GroupIndex ?e txID) (ListenPort ?c) \<in> set (wk_groups (a_worker app))"
    using engine(1) [of "MCPrefix ?c" "MCGroupID ?c" "unat (ShardBits ?c)" txID] n groups
    by (auto simp: buildGroups_def build_engine_def Let_def
        intro!: image_eqI [of _ _ "unat (se_GroupIndex (build_engine sp ?c) txID)"])
  then show ?thesis
    using rt groups engine(2) subtree by (auto simp: retransmit_group_def buildGroups_def build_engine_def Let_def)
qed

theorem retransmissions_reach_joined_groups_witness:
  "\<exists>(app :: (unit, int) app) fds'. run_setup ex_shard ex_run [] = (Inr app, fds')
    \<and> retransmit_group ex_frame ex_shard (a_retrans app) (replicate 6 0 @ [6]) (replicate 32 9)
      \<in> set (wk_groups (a_worker app))"
proof -
  obtain app :: "(unit, int) app" and fds' where a: "run_setup ex_shard ex_run [] = (Inr app, fds')"
    "EgressPort (a_cfg app) = ListenPort (a_cfg app)" using ex_run_setup by blast
  have "(replicate 6 0 @ [6]) ! 6 \<noteq> fp_FrameVerV5 ex_frame" by (simp add: nth_append ex_frame_def)
  then show ?thesis
    using retransmissions_reach_joined_groups [OF a(1) ex_run_facts a(2) ex_engine_facts, of "replicate 6 0 @ [6]" ex_frame]
      a(1) by blast
qed

text \<open>C36: The beacon of a started endpoint works, whatever address it advertises: it has at least one group to announce on, an interval of a
  second or more (so its ticker can be made), a non-zero instance id, and the configured tier and
  preference unharmed by their conversion to a byte.\<close>

theorem beacon_of_started_endpoint:
  assumes "run_setup sp ru fds = (Inr app, fds')" "1 \<le> os_NumCPU (ru_os ru)"
      "\<And>d. EgressIfaces (fst (os_flagParse (ru_os ru) d)) = EgressIfaces (fst d)"
    and "start_beacon (a_cfg app) host (hd (a_egress app)) addr = Inr (Some b)"
  shows "beaconGroups sp b \<noteq> [] \<and> second \<le> bc_Interval (bs_cfg b) \<and> bc_InstanceID (bs_cfg b) \<noteq> 0
    \<and> unat (bc_Tier (bs_cfg b)) = unat (BeaconTier (a_cfg app))
    \<and> unat (bc_Preference (bs_cfg b)) = unat (BeaconPreference (a_cfg app))"
  using assms(1)
proof (cases rule: run_setup_app)
  case (1 mcIface nackIP)
  have f: "unat (BeaconTier (a_cfg app)) \<le> 255" "unat (BeaconPreference (a_cfg app)) \<le> 255"
    "BeaconScopeByte (a_cfg app) \<in> {0x05, 0x08, 0x0E, 0xFF}" "second \<le> BeaconInterval (a_cfg app)"
    using load_facts [OF 1(1) assms(2,3)] by blast+
  have u: "unat (ucast v :: byte) = unat v" if "unat v \<le> 255" for v :: u64
    using that by (simp add: unsigned_ucast_eq take_bit_eq_mod)
  show ?thesis
    using assms(4) f u hashInstanceID_nonzero
    by (auto simp: start_beacon_def build_beacon_def beacon_New_def beaconGroups_def Let_def split: if_splits sum.splits)
qed

theorem beacon_of_started_endpoint_witness:
  "\<exists>(app :: (unit, int) app) fds' b. run_setup ex_shard ex_run [] = (Inr app, fds')
    \<and> start_beacon (a_cfg app) None (hd (a_egress app)) (Inr (Some (replicate 16 32))) = Inr (Some b)
    \<and> beaconGroups ex_shard b \<noteq> []"
proof -
  obtain app :: "(unit, int) app" and fds' where a: "run_setup ex_shard ex_run [] = (Inr app, fds')" "BeaconEnabled (a_cfg app)"
    using ex_run_setup by blast
  then obtain b where "start_beacon (a_cfg app) None (hd (a_egress app)) (Inr (Some (replicate 16 32))) = Inr (Some b)"
    by (simp add: start_beacon_def)
  then show ?thesis using beacon_of_started_endpoint [OF a(1) ex_run_facts] a(1) by blast
qed

text \<open>C35: The endpoint listens where it says it does.  The address is picked twice, for the NACK socket and later for the beacon.
  When one is configured, or the interface has the same addresses both times (\<open>addrs2\<close> are those of the second time), the
  printed address that the socket is bound to parses to the very address the beacon advertises, 16 bytes long.  That address is
  the configured one as it parses, or else a global unicast IPv6 address of the first egress interface.\<close>

theorem bind_address_is_advertised:
  assumes "run_setup sp ru fds = (Inr app, fds')"
    and "start_beacon (a_cfg app) host (hd (a_egress app)) (pickBeaconNACKAddr (BeaconNACKAddr (a_cfg app)) addrs2) = Inr (Some b)"
    and "BeaconNACKAddr (a_cfg app) = [] \<Longrightarrow> addrs2 = ru_addrs ru (hd (a_egress app))"
  shows "ParseIP (sv_bindAddr (a_server app)) = Some (bc_NACKAddr (bs_cfg b)) \<and> length (bc_NACKAddr (bs_cfg b)) = 16
    \<and> (if BeaconNACKAddr (a_cfg app) \<noteq> [] then ParseIP (BeaconNACKAddr (a_cfg app)) = Some (bc_NACKAddr (bs_cfg b))
       else IsGlobalUnicast (bc_NACKAddr (bs_cfg b)) \<and> To4 (bc_NACKAddr (bs_cfg b)) = None
         \<and> (\<exists>as. ru_addrs ru (hd (a_egress app)) = Inr as \<and> bc_NACKAddr (bs_cfg b) \<in> addr_ip ` set as))"
  using assms(1)
proof (cases rule: run_setup_app)
  case (1 mcIface nackIP)
  let ?x = "BeaconNACKAddr (a_cfg app)"
  obtain i where i: "nackIP = Some i" "length i = 16" using pick_some [OF 1(9)] by blast
  have bind: "sv_bindAddr (a_server app) = IP_String i"
    using 1(7) i(1) by (simp add: build_server_def SetShardEngine_def SetSuppressMISS_def SetSuppressACK_def SetBindAddr_def)
  have "pickBeaconNACKAddr ?x addrs2 = Inr (Some i)"
    using 1(9) assms(3) i(1) by (cases "?x = []") (simp_all add: pickBeaconNACKAddr_def)
  then have adv: "bc_NACKAddr (bs_cfg b) = i"
    using assms(2) by (auto simp: start_beacon_def build_beacon_def beacon_New_def Let_def split: if_splits)
  have "if ?x \<noteq> [] then ParseIP ?x = Some i
      else IsGlobalUnicast i \<and> To4 i = None \<and> (\<exists>as. ru_addrs ru (hd (a_egress app)) = Inr as \<and> i \<in> addr_ip ` set as)"
    using pick_origin [OF 1(9) [unfolded i(1)]] .
  then show ?thesis using ParseIP_IP_String [OF i(2)] i(2) bind adv by simp
qed

theorem bind_address_is_advertised_witness:
  "\<exists>(app :: (unit, int) app) fds' b. run_setup ex_shard ex_run [] = (Inr app, fds')
    \<and> start_beacon (a_cfg app) None (hd (a_egress app))
        (pickBeaconNACKAddr (BeaconNACKAddr (a_cfg app)) (Inr [IPNet (replicate 16 32)])) = Inr (Some b)
    \<and> ParseIP (sv_bindAddr (a_server app)) = Some (bc_NACKAddr (bs_cfg b))"
proof -
  obtain app :: "(unit, int) app" and fds' where a: "run_setup ex_shard ex_run [] = (Inr app, fds')"
    "BeaconEnabled (a_cfg app)" "BeaconNACKAddr (a_cfg app) = []" using ex_run_setup by blast
  let ?addr = "pickBeaconNACKAddr (BeaconNACKAddr (a_cfg app)) (Inr [IPNet (replicate 16 32)])"
  have "?addr = Inr (Some (replicate 16 32))" using a(3) by (simp add: pickBeaconNACKAddr_def ex_first_global del: first_global.simps)
  then obtain b where b: "start_beacon (a_cfg app) None (hd (a_egress app)) ?addr = Inr (Some b)"
    using a(2) by (simp add: start_beacon_def)
  have "Inr [IPNet (replicate 16 32)] = ru_addrs ex_run (hd (a_egress app))" by (simp add: ex_run_def)
  from bind_address_is_advertised [OF a(1) b this] show ?thesis using a(1) b by blast
qed

text \<open>C37: Readiness of a started endpoint: it starts not ready, is ready as soon as the first of the ingress
  worker and the NACK server has reported (the recorder is built for one worker, and both report), and is never ready
  while draining.\<close>

theorem readiness_of_started_endpoint:
  assumes "run_setup sp ru fds = (Inr app, fds')" "1 \<le> os_NumCPU (ru_os ru)"
      "\<And>d. EgressIfaces (fst (os_flagParse (ru_os ru) d)) = EgressIfaces (fst d)"
  shows "fst (handleReadyz (a_rec app)) = 503
    \<and> fst (handleReadyz (rec_WorkerReady (a_rec app))) = 200
    \<and> fst (handleReadyz (rec_WorkerReady (rec_WorkerReady (a_rec app)))) = 200
    \<and> fst (handleReadyz (rec_WorkerDone (rec_WorkerReady (a_rec app)))) = 503
    \<and> (0 < DrainTimeout (a_cfg app) \<longrightarrow> (\<forall>r. fst (handleReadyz (start_drain (a_cfg app) r)) = 503))"
  using assms(1)
proof (cases rule: run_setup_app)
  case (1 mcIface nackIP)
  have "NumWorkers (a_cfg app) = 1" using load_facts [OF 1(1) assms(2,3)] by blast
  then have "r_numWorkers (a_rec app) = 1" "r_readyCount (a_rec app) = 0" "\<not> r_draining (a_rec app)"
    using rec_New_fields [OF 1(5)] by simp_all
  then show ?thesis
    by (simp add: readyz_status rec_WorkerReady_def rec_WorkerDone_def start_drain_def rec_SetDraining_def)
qed

theorem readiness_of_started_endpoint_witness:
  "\<exists>(app :: (unit, int) app) fds'. run_setup ex_shard ex_run [] = (Inr app, fds')
    \<and> fst (handleReadyz (rec_WorkerReady (a_rec app))) = 200"
proof -
  obtain app :: "(unit, int) app" and fds' where a: "run_setup ex_shard ex_run [] = (Inr app, fds')"
    using ex_run_setup by blast
  then show ?thesis using readiness_of_started_endpoint [OF a ex_run_facts] by blast
qed

end
