(* ===== verification/Endpoint.thy ===== *)
theory Endpoint
  imports Startup
begin

text \<open>
  The components composed as \<open>run\<close> in \<open>src/main.go\<close> composes them: the handler's environment over the chosen
  cache backend and the retransmitter, sequences of NACKs, and the lemmas the properties that
  span components rest on.
\<close>

section \<open>The handler over a backend\<close>

text \<open>The choices of one handler run: clock readings, the order of the sockets, results of writes.\<close>

record nack_choice =
  nc_tIP :: time
  nc_tSeq :: time
  nc_tChain :: time
  nc_tGroup :: time
  nc_tGet :: time
  nc_tNX :: time
  nc_ord :: "nat list"
  nc_egress :: "nat \<Rightarrow> err option"
  nc_WriteTo :: "bytes \<Rightarrow> udp_addr \<Rightarrow> err option"

text \<open>\<open>s.retransmit.Retransmit\<close>: the retransmitter shares the recorder with the server.\<close>

definition env_retransmit :: "frame_pkg \<Rightarrow> shard_pkg \<Rightarrow> retransmitter \<Rightarrow> nack_choice \<Rightarrow> bytes \<Rightarrow> txid
    \<Rightarrow> recorder option \<Rightarrow> 's rt_world \<Rightarrow> err option \<times> recorder option \<times> 's rt_world" where
  "env_retransmit fp sp rt nc raw txID rc x =
     (let (e, x') = Retransmit fp sp rt (nc_tNX nc) (nc_egress nc) (nc_ord nc) raw txID (x\<lparr>w_rec := rc\<rparr>)
      in (e, w_rec x', x'))"

text \<open>Redis backend: the frame cache and the dedup gate are one object, which is always present
  with this backend.\<close>

definition redis_env :: "frame_pkg \<Rightarrow> shard_pkg \<Rightarrow> retransmitter \<Rightarrow> nack_choice \<Rightarrow> 's rt_world nack_env" where
  "redis_env fp sp rt nc = \<lparr>ne_tIP = nc_tIP nc, ne_tSeq = nc_tSeq nc, ne_tChain = nc_tChain nc, ne_tGroup = nc_tGroup nc,
     ne_Retrieve = (\<lambda>k x. case w_redis x of
        None \<Rightarrow> (Inr None, x)
      | Some rc \<Rightarrow> (let (res, rc') = redis_Retrieve (nc_tGet nc) k rc in (res, x\<lparr>w_redis := Some rc'\<rparr>))),
     ne_Retransmit = env_retransmit fp sp rt nc,
     ne_WriteTo = nc_WriteTo nc\<rparr>"

text \<open>In-memory backend: the frames are slices of the heap \<open>h\<close> as it is when the handler reads them.\<close>

definition memory_env :: "frame_pkg \<Rightarrow> shard_pkg \<Rightarrow> retransmitter \<Rightarrow> heap \<Rightarrow> nack_choice
    \<Rightarrow> (slice memcache \<times> 's rt_world) nack_env" where
  "memory_env fp sp rt h nc = \<lparr>ne_tIP = nc_tIP nc, ne_tSeq = nc_tSeq nc, ne_tChain = nc_tChain nc, ne_tGroup = nc_tGroup nc,
     ne_Retrieve = (\<lambda>k (c, x). let (res, c') = co_Retrieve mem_ops (nc_tGet nc) h k c in (res, (c', x))),
     ne_Retransmit = (\<lambda>raw txID rc (c, x). let (e, rc', x') = env_retransmit fp sp rt nc raw txID rc x in (e, rc', (c, x'))),
     ne_WriteTo = nc_WriteTo nc\<rparr>"

section \<open>A hit that is served\<close>

lemma nack_served:
  assumes v: "validateNACK fp d = None" "nack_end d = nack_start d"
    and t: "pre_tiers P env (ua_ip a) (nack_hash d) (nack_start d) (nw_lim w) = Inr (None, lm)"
    and look: "ne_Retrieve env (frame_key (nack_hash d) (nack_start d)) (nw_x w) = (Inr (Some raw), x)"
    and thr: "\<not> throttles P sv (ne_tGroup env) (ua_ip a) (frame_txid raw) lm"
    and rt: "\<And>rc. \<exists>rc' y. ne_Retransmit env raw (frame_txid raw) rc x = (None, rc', y) \<and> Q y"
    and ack: "\<not> sv_suppressACK sv" "\<And>b. ne_WriteTo env b a = None"
  shows "\<exists>w'. processNACK fp P sv env d (Some a) w = Inr w' \<and> Q (nw_x w')
    \<and> nw_sent w' = nw_sent w @ [(a, response_bytes fp msgTypeACK 1 (nack_start d))]"
proof -
  let ?w = "w\<lparr>nw_rec := on_rec rec_NACKRequest (nw_rec w), nw_lim := lm, nw_x := x\<rparr>"
  obtain rc' y where y: "ne_Retransmit env raw (frame_txid raw) (on_rec rec_CacheHit (nw_rec ?w)) (nw_x ?w) = (None, rc', y)" "Q y"
    using rt [of "on_rec rec_CacheHit (nw_rec ?w)"] by auto
  have "nw_x (serve_hit fp P sv env (Some a) (ua_ip a) (nack_start d) raw ?w) = y"
    "nw_sent (serve_hit fp P sv env (Some a) (ua_ip a) (nack_start d) raw ?w)
      = nw_sent w @ [(a, response_bytes fp msgTypeACK 1 (nack_start d))]"
    using serve_hit_outcome [where w = ?w and throttled = False and fp = fp and P = P and sv = sv
        and i = "ua_ip a" and src = "Some a" and q = "nack_start d", OF y(1)] thr ack
    by (simp_all add: respond_def)
  then show ?thesis
    using processNACK_admitted [OF v, of P env "Some a" w lm sv] t look y(2)
    by (simp add: serve_nack_def src_ip_def)
qed

section \<open>Redis keys\<close>

text \<open>The server answers every command without an error.\<close>

definition redis_up :: "'s redis_client \<Rightarrow> bool" where
  "redis_up c \<longleftrightarrow> (\<forall>t k s e. fst (rc_Get c t k s) \<noteq> GetErr e) \<and> (\<forall>t k v ttl s. fst (rc_Set c t k v ttl s) = None)
     \<and> (\<forall>t k v ttl s. snd (fst (rc_SetNX c t k v ttl s)) = None)"

lemma ref_redis_up: "redis_up ref_redis"
  by (simp add: redis_up_def ref_redis_def split: option.split)

lemma redis_Retrieve_up:
  assumes "redis_laws db (rd_client c)" "redis_up (rd_client c)"
  shows "redis_Retrieve t k c = (Inr (redis_view db c t k),
    c\<lparr>rd_server := snd (rc_Get (rd_client c) t (rd_prefix c @ k) (rd_server c))\<rparr>)"
proof -
  have "case fst (rc_Get (rd_client c) t (rd_prefix c @ k) (rd_server c)) of
      GetVal v \<Rightarrow> redis_view db c t k = Some v | GetNil \<Rightarrow> redis_view db c t k = None | GetErr e \<Rightarrow> False"
    using get_lawD [of db "rd_client c" t "rd_server c" "rd_prefix c @ k"] assms
    by (auto simp: redis_laws_def redis_up_def redis_view_def split: get_reply.splits)
  then show ?thesis
    by (auto simp: redis_Retrieve_def Let_def case_prod_beta split: get_reply.splits)
qed

text \<open>A free dedup key lets the frame pass.\<close>

lemma dedup_gate_free:
  assumes "w_redis x = Some rc" "setnx_law db (rd_client rc)" "redis_up (rd_client rc)" "ttl_ok (rt_dedupWindow r)"
    and "56 \<le> length raw" "db (rd_server rc) t (rd_prefix rc @ sub raw 48 56) = None"
  shows "\<exists>x'. dedup_gate r t raw x = (True, x') \<and> w_egress x' = w_egress x \<and> w_rec x' = w_rec x"
proof -
  obtain ok e s' where eq: "rc_SetNX (rd_client rc) t (rd_prefix rc @ sub raw 48 56) (str ''1'') (rt_dedupWindow r)
      (rd_server rc) = ((ok, e), s')" by (metis prod.exhaust_sel)
  have "e = None" using assms(3) eq unfolding redis_up_def by (metis fst_conv snd_conv)
  then have "ok" using setnx_lawD [OF assms(2,4) eq] assms(6) by simp
  then show ?thesis using assms(1,5) eq
    by (simp add: dedup_gate_redis redis_SetNX_eq)
qed

text \<open>Storing a frame writes its 16-byte key and leaves the 8-byte dedup keys alone.\<close>

lemma stored_frame:
  assumes "redis_laws db (rd_client c)" "redis_up (rd_client c)" "ttl_ok ttl"
    and "redis_Store r t (frame_key h q) v ttl c = (e, c')"
  shows "rd_client c' = rd_client c \<and> rd_prefix c' = rd_prefix c
    \<and> (\<forall>t'. t \<le> t' \<and> t' < t + ttl \<longrightarrow> redis_view db c' t' (frame_key h q) = Some v)
    \<and> (\<forall>t' k. t \<le> t' \<and> length k = 8 \<longrightarrow> redis_view db c' t' k = redis_view db c t' k)"
proof -
  let ?k = "rd_prefix c @ frame_key h q"
  have c': "c' = c\<lparr>rd_server := snd (rc_Set (rd_client c) t ?k v ttl (rd_server c))\<rparr>"
    using assms(4) by (simp add: redis_Store_eq)
  have set: "set_law db (rd_client c)" using assms(1) by (simp add: redis_laws_def)
  have w: "writes db t ?k v ttl (rd_server c) (rd_server c')"
    using set_lawD [OF set assms(3), of t ?k v "rd_server c"] assms(2) c' by (auto simp: redis_up_def)
  have "length k = 8 \<Longrightarrow> rd_prefix c @ k \<noteq> ?k" for k using length_frame_key [of h q] by auto
  then show ?thesis using w c' by (auto simp: redis_view_def writes_def)
qed

text \<open>A received frame is in the cache, and the dedup keys are as before.\<close>

lemma received_frame_stored:
  assumes redis: "redis_laws db (rd_client (iw_cache wi))" "redis_up (rd_client (iw_cache wi))" "ttl_ok (wk_ttl wk)"
    and frame: "decode_any fp raw = Inr f" "d_SeqNum f \<noteq> 0" "56 \<le> length raw" "length raw \<le> recvBufSize"
    and received: "re_recv ev = RData raw" "recv_step fp redis_ops wk a ev (h, wi) = (False, h', wi')"
  shows "rd_client (iw_cache wi') = rd_client (iw_cache wi)
    \<and> (\<forall>t'. re_now ev \<le> t' \<and> t' < re_now ev + wk_ttl wk \<longrightarrow>
         redis_view db (iw_cache wi') t' (frame_key (d_HashKey f) (d_SeqNum f)) = Some raw)
    \<and> (\<forall>t' k. re_now ev \<le> t' \<and> length k = 8 \<longrightarrow> redis_view db (iw_cache wi') t' k = redis_view db (iw_cache wi) t' k)"
proof -
  let ?s = "\<lparr>sl_arr = a, sl_off = 0, sl_len = length raw\<rparr>"
  have ne: "raw \<noteq> []" using frame(3) by auto
  have h': "h' = h(a := put_at (h a) 0 raw)" and wi': "wi' = processFrame fp redis_ops wk h' (re_choice ev) (re_now ev) ?s wi"
    using recv_step_data [OF ne frame(4) received(1), of fp redis_ops wk a h wi] received(2) by (simp_all add: Let_def)
  have d: "deref h' ?s = raw" using take_put_at_front [of raw "h a"] by (simp add: h')
  obtain e c' where st: "redis_Store (re_choice ev) (re_now ev) (frame_key (d_HashKey f) (d_SeqNum f)) raw (wk_ttl wk)
      (iw_cache wi) = (e, c')" by fastforce
  then have "iw_cache wi' = c'"
    using wi' d frame(1,2) by (simp add: processFrame_decode_any cache_decoded_def redis_ops_def Let_def)
  then show ?thesis using stored_frame [OF redis st] by blast
qed

text \<open>The in-memory backend: the frame received last is read back from the receive buffer.\<close>

lemma memory_latest_lookup:
  assumes "decode_any fp raw = Inr f" "d_SeqNum f \<noteq> 0" "raw \<noteq> []" "length raw \<le> recvBufSize"
    and "re_recv ev = RData raw" "recv_step fp mem_ops wk a ev (h, w) = (False, h', w')"
    and "t \<le> re_now ev + wk_ttl wk"
  shows "co_Retrieve mem_ops t h' (be64 (d_HashKey f) @ be64 (d_SeqNum f)) (iw_cache w') = (Inr (Some raw), iw_cache w')"
proof -
  let ?s = "\<lparr>sl_arr = a, sl_off = 0, sl_len = length raw\<rparr>"
  have h': "h' = h(a := put_at (h a) 0 raw)" and w': "w' = processFrame fp mem_ops wk h' (re_choice ev) (re_now ev) ?s w"
    using recv_step_data [OF assms(3-5), of fp mem_ops wk a h w] assms(6) by (simp_all add: Let_def)
  have d: "deref h' ?s = raw" using take_put_at_front [of raw "h a"] by (simp add: h')
  then have "iw_cache w' = snd (mem_Store (re_choice ev) (re_now ev) (frame_key (d_HashKey f) (d_SeqNum f)) ?s
      (wk_ttl wk) (iw_cache w))"
    using w' assms(1,2) by (simp add: processFrame_decode_any cache_decoded_def mem_ops_Store Let_def case_prod_beta)
  then have "mem_view (iw_cache w') t (frame_key (d_HashKey f) (d_SeqNum f)) = Some ?s"
    using assms(7) by (simp add: mem_view_def mem_Store_evict)
  then show ?thesis using d by (simp only: mem_ops_Retrieve frame_key_eq [symmetric]) simp
qed

section \<open>Sequences of NACKs\<close>

text \<open>An environment that also keeps the keys of all cache lookups, in order; otherwise it is the given one.\<close>

definition traced_env :: "'x nack_env \<Rightarrow> ('x \<times> bytes list) nack_env" where
  "traced_env env = \<lparr>ne_tIP = ne_tIP env, ne_tSeq = ne_tSeq env, ne_tChain = ne_tChain env, ne_tGroup = ne_tGroup env,
     ne_Retrieve = (\<lambda>k (x, ks). let (res, x') = ne_Retrieve env k x in (res, (x', ks @ [k]))),
     ne_Retransmit = (\<lambda>raw t rc (x, ks). let (e, rc', x') = ne_Retransmit env raw t rc x in (e, rc', (x', ks))),
     ne_WriteTo = ne_WriteTo env\<rparr>"

lemma traced_env_simps [simp]:
  "ne_tIP (traced_env env) = ne_tIP env" "ne_tSeq (traced_env env) = ne_tSeq env"
  "ne_tChain (traced_env env) = ne_tChain env" "ne_tGroup (traced_env env) = ne_tGroup env"
  "ne_WriteTo (traced_env env) = ne_WriteTo env"
  by (simp_all add: traced_env_def)

abbreviation lookups :: "('x \<times> bytes list, 'b) nack_world \<Rightarrow> bytes list" where
  "lookups w \<equiv> snd (nw_x w)"

text \<open>Handler runs one after the other, with the flags which of them looked a frame up in the cache.\<close>

fun nack_run :: "frame_pkg \<Rightarrow> 'b rate_pkg \<Rightarrow> server \<Rightarrow> ('x nack_env \<times> bytes \<times> udp_addr option) list
    \<Rightarrow> ('x \<times> bytes list, 'b) nack_world \<Rightarrow> panic + (bool list \<times> ('x \<times> bytes list, 'b) nack_world)" where
  "nack_run fp P sv [] w = Inr ([], w)"
| "nack_run fp P sv ((env, d, src) # calls) w =
     (case processNACK fp P sv (traced_env env) d src w of
        Inl p \<Rightarrow> Inl p
      | Inr w' \<Rightarrow> (case nack_run fp P sv calls w' of
          Inl p \<Rightarrow> Inl p
        | Inr (flags, w'') \<Rightarrow> Inr ((lookups w' \<noteq> lookups w) # flags, w'')))"

text \<open>Without the trace the runs are those of the handler.\<close>

definition untrace :: "('x \<times> bytes list, 'b) nack_world \<Rightarrow> ('x, 'b) nack_world" where
  "untrace w = \<lparr>nw_x = fst (nw_x w), nw_lim = nw_lim w, nw_rec = nw_rec w, nw_sent = nw_sent w\<rparr>"

lemma untrace_simps [simp]:
  "nw_x (untrace w) = fst (nw_x w)" "nw_lim (untrace w) = nw_lim w" "nw_rec (untrace w) = nw_rec w"
  "nw_sent (untrace w) = nw_sent w" "untrace (w\<lparr>nw_lim := l\<rparr>) = (untrace w)\<lparr>nw_lim := l\<rparr>"
  "untrace (w\<lparr>nw_rec := rc\<rparr>) = (untrace w)\<lparr>nw_rec := rc\<rparr>" "untrace (w\<lparr>nw_x := x\<rparr>) = (untrace w)\<lparr>nw_x := fst x\<rparr>"
  "untrace (w\<lparr>nw_sent := m\<rparr>) = (untrace w)\<lparr>nw_sent := m\<rparr>"
  by (simp_all add: untrace_def)

lemma untrace_sendResponse: "untrace (sendResponse fp wr a ty fl q w) = sendResponse fp wr a ty fl q (untrace w)"
  by (simp add: sendResponse_def Let_def split: option.split)

lemma untrace_group_tier:
  "group_tier P sv t i x (untrace w) = (fst (group_tier P sv t i x w), untrace (snd (group_tier P sv t i x w)))"
  by (simp add: group_tier_def Let_def case_prod_beta split: option.split)

lemma untrace_serve_hit:
  "untrace (serve_hit fp P sv (traced_env env) src i q raw w) = serve_hit fp P sv env src i q raw (untrace w)"
proof -
  let ?w = "w\<lparr>nw_rec := on_rec rec_CacheHit (nw_rec w)\<rparr>"
  obtain th w2 where g: "group_tier P sv (ne_tGroup env) i (frame_txid raw) ?w = (th, w2)" by fastforce
  then have g': "group_tier P sv (ne_tGroup env) i (frame_txid raw) ((untrace w)\<lparr>nw_rec := on_rec rec_CacheHit (nw_rec w)\<rparr>) = (th, untrace w2)"
    using untrace_group_tier [of P sv "ne_tGroup env" i "frame_txid raw" ?w] by simp
  have r: "ne_Retransmit (traced_env env) raw t rc x = (case ne_Retransmit env raw t rc (fst x) of (e, rc', x') \<Rightarrow> (e, rc', (x', snd x)))"
    for t rc x by (simp add: traced_env_def case_prod_beta Let_def)
  obtain e rc' x' where "ne_Retransmit env raw (frame_txid raw) (nw_rec w2) (fst (nw_x w2)) = (e, rc', x')" by (metis prod.exhaust)
  then show ?thesis
    using g g' by (cases e; cases th) (simp_all add: serve_hit_def Let_def r untrace_sendResponse split: option.split)
qed

lemma untrace_processNACK:
  "map_sum id untrace (processNACK fp P sv (traced_env env) d src w) = processNACK fp P sv env d src (untrace w)"
proof -
  have r: "ne_Retrieve (traced_env env) k x = (case ne_Retrieve env k (fst x) of (res, x') \<Rightarrow> (res, (x', snd x @ [k])))" for k x
    by (simp add: traced_env_def case_prod_beta Let_def)
  have "untrace (serve_nack fp P sv (traced_env env) src i h q w) = serve_nack fp P sv env src i h q (untrace w)" for i h q and w
    by (simp add: serve_nack_def Let_def r untrace_sendResponse untrace_serve_hit split: prod.split sum.split option.split)
  then show ?thesis by (simp add: processNACK_def Let_def split: sum.split prod.split)
qed

text \<open>The clock reading and the SeqNum each call shows to the sequence tier.\<close>

definition seq_calls :: "('x nack_env \<times> bytes \<times> udp_addr option) list \<Rightarrow> (time \<times> u64) list" where
  "seq_calls calls = map (\<lambda>(env, d, src). (ne_tSeq env, nack_start d)) calls"

lemma seq_calls_simps [simp]:
  "seq_calls [] = []" "seq_calls ((env, d, src) # calls) = (ne_tSeq env, nack_start d) # seq_calls calls"
  by (simp_all add: seq_calls_def)

lemma serve_nack_seq:
  "sequenceLim (nw_lim (serve_nack fp P sv env src i h q w)) = sequenceLim (nw_lim w)"
proof -
  have g: "sequenceLim (nw_lim (snd (group_tier P sv t i x u))) = sequenceLim (nw_lim u)"
    for t x and u :: "('b, 'a) nack_world"
    by (auto simp: group_tier_def AllowGroup_def Let_def split: option.split prod.split)
  have "sequenceLim (nw_lim (serve_hit fp P sv env src i q raw u)) = sequenceLim (nw_lim u)"
    for raw and u :: "('b, 'a) nack_world"
    using g [of "ne_tGroup env" "frame_txid raw" "u\<lparr>nw_rec := on_rec rec_CacheHit (nw_rec u)\<rparr>"]
    by (auto simp: serve_hit_def Let_def sendResponse_sent split: option.split prod.split if_splits)
  then show ?thesis
    by (auto simp: serve_nack_def Let_def sendResponse_sent split: option.split prod.split sum.split)
qed

lemma processNACK_seq:
  assumes "processNACK fp P sv env d src w = Inr w'"
  shows "nw_x w' = nw_x w \<and> sequenceLim (nw_lim w') = sequenceLim (nw_lim w)
    \<or> (\<exists>ok. sq_Allow (ne_tSeq env) (nack_start d) (sequenceLim (nw_lim w)) = Inr (ok, sequenceLim (nw_lim w'))
         \<and> (nw_x w' \<noteq> nw_x w \<longrightarrow> ok))"
  using assms
  by (auto simp: processNACK_def Limiter_Allow_def AllowChain_def serve_nack_seq
      Let_def case_prod_beta split: sum.splits prod.splits if_splits)

lemma nack_run_seq:
  "nack_run fp P sv calls w = Inr (flags, w') \<Longrightarrow>
    \<exists>cs oks sl. sq_run cs (sequenceLim (nw_lim w)) = Inr (oks, sl) \<and> set cs \<subseteq> set (seq_calls calls)
      \<and> (\<forall>\<delta>. clock_skew \<delta> (seq_calls calls) \<longrightarrow> clock_skew \<delta> cs)
      \<and> (\<forall>q T win. admitted_in q T win (seq_calls calls) flags \<le> admitted_in q T win cs oks)"
proof (induction calls arbitrary: w flags)
  case Nil
  then show ?case by (intro exI [of _ "[]"]) (simp add: admitted_in_def)
next
  case (Cons c calls)
  obtain env d src where c: "c = (env, d, src)" by (cases c)
  from Cons.prems obtain w1 fl where one: "processNACK fp P sv (traced_env env) d src w = Inr w1"
    and rest: "nack_run fp P sv calls w1 = Inr (fl, w')" and flags: "flags = (lookups w1 \<noteq> lookups w) # fl"
    by (auto simp: c split: sum.splits prod.splits)
  from Cons.IH [OF rest] obtain cs oks sl where IH: "sq_run cs (sequenceLim (nw_lim w1)) = Inr (oks, sl)"
    "set cs \<subseteq> set (seq_calls calls)" "\<forall>\<delta>. clock_skew \<delta> (seq_calls calls) \<longrightarrow> clock_skew \<delta> cs"
    "\<forall>q T win. admitted_in q T win (seq_calls calls) fl \<le> admitted_in q T win cs oks" by blast
  from processNACK_seq [OF one, simplified] show ?case
  proof (elim disjE conjE exE)
    assume "nw_x w1 = nw_x w" "sequenceLim (nw_lim w1) = sequenceLim (nw_lim w)"
    then show ?thesis using IH flags
      by (intro exI [of _ cs] exI [of _ oks] exI [of _ sl]) (auto simp: c admitted_in_def)
  next
    fix ok
    assume ok: "sq_Allow (ne_tSeq env) (nack_start d) (sequenceLim (nw_lim w)) = Inr (ok, sequenceLim (nw_lim w1))"
      "nw_x w1 \<noteq> nw_x w \<longrightarrow> ok"
    let ?cs = "(ne_tSeq env, nack_start d) # cs"
    have "sq_run ?cs (sequenceLim (nw_lim w)) = Inr (ok # oks, sl)" using ok(1) IH(1) by simp
    moreover have "lookups w1 \<noteq> lookups w \<longrightarrow> ok" using ok(2) by auto
    then have "admitted_in q T win (seq_calls (c # calls)) flags \<le> admitted_in q T win ?cs (ok # oks)" for q T win
      using IH(4) [THEN spec, THEN spec, THEN spec, of q T win] by (simp add: c flags admitted_in_def)
    ultimately show ?thesis using IH(2,3)
      by (intro exI [of _ ?cs] exI [of _ "ok # oks"] exI [of _ sl]) (auto simp: c)
  qed
qed

lemma nack_run_total: "limiter_sane (nw_lim w) \<Longrightarrow> \<exists>flags w'. nack_run fp P sv calls w = Inr (flags, w')"
proof (induction calls arbitrary: w)
  case (Cons c calls)
  obtain env d src where c: "c = (env, d, src)" by (cases c)
  obtain w1 where w1: "processNACK fp P sv (traced_env env) d src w = Inr w1" "limiter_sane (nw_lim w1)"
    using processNACK_total [OF Cons.prems] by blast
  then show ?case using Cons.IH [OF w1(2)] by (auto simp: c)
qed simp

section \<open>The limiter of a configuration\<close>

lemma limiter_of_config_sane:
  assumes "0 \<le> RLSequenceMax cfg" "RLSequenceMax cfg \<le> 10 ^ 12"
    and "RLChainRate cfg = Fin r" "1 \<le> r" "r \<le> 10 ^ 12"
  shows "limiter_sane (Limiter_New oob (build_limiter_config cfg))"
proof -
  have f: "1 \<le> \<lfloor>r\<rfloor>" using assms(4) by (simp add: le_floor_iff)
  have g: "\<lfloor>r\<rfloor> \<le> 10 ^ 12" using assms(5) by (simp add: floor_le_iff)
  have "1 \<le> n \<Longrightarrow> n \<le> 10 ^ 12 \<Longrightarrow> sane n \<and> int64_range n \<and> 0 < n" for n :: int
    by (simp add: sane_def int64_range_def)
  note this [OF f g]
  moreover from this have "int_of_f64 oob (Fin r) = \<lfloor>r\<rfloor>" using assms(4) by (simp add: int_of_f64_def trunc_def)
  ultimately have "sane \<lfloor>r\<rfloor>" "int_of_f64 oob (Fin r) = \<lfloor>r\<rfloor>" "0 < \<lfloor>r\<rfloor>" by simp_all
  then show ?thesis using assms
    by (auto simp: limiter_sane_def Limiter_New_def rl_normalise_def build_limiter_config_def newSlidingWindowLimiter_def
        newSequenceLimiter_def sane_def Let_def)
qed

section \<open>Example choices\<close>

definition ex_rt :: retransmitter where
  "ex_rt = (rt_New (ex_engine 0xFF05 11 8) [] 9001 second)\<lparr>rt_sockets := [([1], 3)]\<rparr>"

definition ex_choice :: nack_choice where
  "ex_choice = \<lparr>nc_tIP = 0, nc_tSeq = 0, nc_tChain = 0, nc_tGroup = 0, nc_tGet = 5, nc_tNX = 6,
     nc_ord = [0], nc_egress = \<lambda>_. None, nc_WriteTo = \<lambda>_ _. None\<rparr>"

end
