(* ===== verification/Lifecycle.thy ===== *)
theory Lifecycle
  imports Startup
begin

text \<open>
  \<open>run\<close> of \<open>src/main.go\<close> from the first goroutine to the exit of the process: the main goroutine, the goroutines
  it starts and waits for (metrics server, cache sampler, ingress worker, NACK server, beacon), the
  signal, the drain, the cancellation and the deferred calls, as one step relation.  The NACK server is
  the pool of \<open>Worker_Pool\<close> with all its interleavings.  Of the other goroutines the model keeps where they
  are, when they return, and which shared resource a step uses; what they compute is in the theories of their components.

  The ingress worker's receive loop takes one result of \<open>Recvfrom\<close> per step and goes on, processes a frame or returns
  as \<open>recv_step\<close> does (\<open>recv_returns\<close>).  Its own goroutine, which no wait group knows, closes the receive socket when the context is
  cancelled; a closed socket, and only that, answers with a bad-descriptor error.  The receive timeout of 200 ms that the
  worker sets lets \<open>Recvfrom\<close> return \<open>EAGAIN\<close> at any time.

  Ticks, datagrams and other results that leave a loop running come from outside: \<open>lf_events\<close> is how many of them are still to come,
  an arbitrary number.
\<close>

section \<open>State\<close>

text \<open>A goroutine that was not started, runs, or has returned.\<close>

datatype 'a gor = GNone | GRun 'a | GRet

datatype ing_pc = IStart | IRecv | IFrame

text \<open>The receive socket of the ingress worker.\<close>

datatype recv_sock = SockNone | SockOpen | SockClosed

datatype bea_pc = BStart | BLoop

datatype ('p, 'w) srv_pc = SListen | SPool "('p, 'w) pool"

text \<open>The deferred calls of \<open>run\<close>.\<close>

datatype deferred = DCancel2 | DCancel | DEgress | DRedis | DCache

datatype main_pc =
    MMetrics | MSampler | MIngress | MServer | MBeacon
  | MSignal | MDrain | MCancel | MClose | MWait | MShutdown
  | MDefer "deferred list" nat | MExit nat

record ('p, 'w) life =
  lf_main :: main_pc
  lf_ctx :: bool
  lf_done :: bool
  lf_metrics :: "unit gor"
  lf_sampler :: "unit gor"
  lf_ingress :: "ing_pc gor"
  lf_sock :: recv_sock
  lf_closer :: "unit gor"
  lf_server :: "('p, 'w) srv_pc gor"
  lf_beacon :: "bea_pc gor"
  lf_rec :: recorder
  lf_closed :: "deferred list"
  lf_shut :: "shutdown_fn list"
  lf_events :: nat
  lf_fault :: bool

definition life_start :: "recorder \<Rightarrow> nat \<Rightarrow> ('p, 'w) life" where
  "life_start r n = \<lparr>lf_main = MMetrics, lf_ctx = False, lf_done = False, lf_metrics = GNone, lf_sampler = GNone,
     lf_ingress = GNone, lf_sock = SockNone, lf_closer = GNone, lf_server = GNone, lf_beacon = GNone, lf_rec = r, lf_closed = [], lf_shut = [],
     lf_events = n, lf_fault = False\<rparr>"

section \<open>Operations\<close>

text \<open>The sampler exists for a backend with a \<open>Len\<close> method; a Redis client of its own for the dedup gate
  only beside another backend.\<close>

definition has_sizer :: "('s, 'b) app \<Rightarrow> bool" where
  "has_sizer app = (case a_backend app of BMemory c \<Rightarrow> True | BRedis c \<Rightarrow> False)"

definition closers :: "('s, 'b) app \<Rightarrow> deferred list" where
  "closers app = [DEgress] @ (if has_sizer app \<and> a_dedup app \<noteq> None then [DRedis] else []) @ [DCache]"

text \<open>\<open>cancel()\<close> reaches every goroutine that holds the context.\<close>

definition cancel_ctx :: "('p, 'w) life \<Rightarrow> ('p, 'w) life" where
  "cancel_ctx L = L\<lparr>lf_ctx := True,
     lf_server := (case lf_server L of GRun (SPool s) \<Rightarrow> GRun (SPool (s\<lparr>p_ctx := True\<rparr>)) | g \<Rightarrow> g)\<rparr>"

fun run_deferred :: "deferred \<Rightarrow> ('p, 'w) life \<Rightarrow> ('p, 'w) life" where
  "run_deferred DCancel2 L = L"
| "run_deferred DCancel L = cancel_ctx L"
| "run_deferred d L = L\<lparr>lf_closed := lf_closed L @ [d]\<rparr>"

text \<open>The beacon is started with a NACK address that is picked again; an error ends \<open>run\<close>.\<close>

definition spawn_beacon :: "('s, 'b) app \<Rightarrow> err + ip option \<Rightarrow> ('p, 'w) life \<Rightarrow> ('p, 'w) life" where
  "spawn_beacon app addr L =
     (if \<not> BeaconEnabled (a_cfg app) then L\<lparr>lf_main := MSignal\<rparr>
      else case addr of
          Inl e \<Rightarrow> L\<lparr>lf_main := MDefer (DCancel # closers app) 1\<rparr>
        | Inr i \<Rightarrow> L\<lparr>lf_main := MSignal, lf_beacon := GRun BStart\<rparr>)"

text \<open>The use of a resource; a fault when it is closed.\<close>

definition use_res :: "deferred set \<Rightarrow> ('p, 'w) life \<Rightarrow> ('p, 'w) life" where
  "use_res R L = L\<lparr>lf_fault := lf_fault L \<or> (\<exists>d \<in> R. d \<in> set (lf_closed L))\<rparr>"

fun running :: "'a gor \<Rightarrow> bool" where
  "running (GRun x) = True"
| "running _ = False"

text \<open>\<open>wg.Wait()\<close> returns when none of these runs.\<close>

definition all_returned :: "('p, 'w) life \<Rightarrow> bool" where
  "all_returned L \<longleftrightarrow> \<not> running (lf_metrics L) \<and> \<not> running (lf_sampler L) \<and> \<not> running (lf_ingress L)
     \<and> \<not> running (lf_server L) \<and> \<not> running (lf_beacon L)"

definition alive :: "('p, 'w) life \<Rightarrow> bool" where
  "alive L \<longleftrightarrow> (case lf_main L of MExit c \<Rightarrow> False | _ \<Rightarrow> True)"

text \<open>What a step of the server uses: a worker that handles a request uses the cache, the dedup client and the
  egress sockets.\<close>

definition pool_uses :: "('p, 'w) pool \<Rightarrow> deferred set" where
  "pool_uses s = (if \<exists>r pc. WBusy r pc \<in> set (p_workers s) then {DEgress, DRedis, DCache} else {})"

text \<open>What \<open>Recvfrom\<close> can return: a bad-descriptor error exactly when the socket is closed.\<close>

definition recv_on :: "recv_sock \<Rightarrow> recv \<Rightarrow> bool" where
  "recv_on sock res \<longleftrightarrow> (res = REBADF \<or> res = REINVAL) = (sock = SockClosed)"

text \<open>Where the receive loop is after a result that does not end it: an empty datagram is not processed.\<close>

definition after_recv :: "recv \<Rightarrow> ing_pc" where
  "after_recv res = (case res of RData d \<Rightarrow> if d = [] then IRecv else IFrame | _ \<Rightarrow> IRecv)"

section \<open>Steps\<close>

text \<open>The main goroutine.  \<open>addr\<close> is the second result of \<open>pickBeaconNACKAddr\<close>, \<open>fin\<close> what the shutdown functions of the
  recorder answer.\<close>

inductive main_step :: "('s, 'b) app \<Rightarrow> err + ip option \<Rightarrow> (shutdown_fn \<Rightarrow> err option)
    \<Rightarrow> ('p, 'w) life \<Rightarrow> ('p, 'w) life \<Rightarrow> bool" for app addr fin where
  m_metrics: "lf_main L = MMetrics \<Longrightarrow> main_step app addr fin L (L\<lparr>lf_main := MSampler, lf_metrics := GRun ()\<rparr>)"
| m_sampler: "lf_main L = MSampler \<Longrightarrow>
    main_step app addr fin L (L\<lparr>lf_main := MIngress, lf_sampler := (if has_sizer app then GRun () else GNone)\<rparr>)"
| m_ingress: "lf_main L = MIngress \<Longrightarrow> main_step app addr fin L (L\<lparr>lf_main := MServer, lf_ingress := GRun IStart\<rparr>)"
| m_server: "lf_main L = MServer \<Longrightarrow> main_step app addr fin L (L\<lparr>lf_main := MBeacon, lf_server := GRun SListen\<rparr>)"
| m_beacon: "lf_main L = MBeacon \<Longrightarrow> main_step app addr fin L (spawn_beacon app addr L)"
| m_signal: "lf_main L = MSignal \<Longrightarrow>
    main_step app addr fin L (L\<lparr>lf_main := (if DrainTimeout (a_cfg app) > 0 then MDrain else MCancel),
      lf_rec := start_drain (a_cfg app) (lf_rec L)\<rparr>)"
| m_drained: "lf_main L = MDrain \<Longrightarrow> main_step app addr fin L (L\<lparr>lf_main := MCancel\<rparr>)"
| m_cancel: "lf_main L = MCancel \<Longrightarrow> main_step app addr fin L ((cancel_ctx L)\<lparr>lf_main := MClose\<rparr>)"
| m_close: "lf_main L = MClose \<Longrightarrow> main_step app addr fin L (L\<lparr>lf_main := MWait, lf_done := True\<rparr>)"
| m_wait: "lf_main L = MWait \<Longrightarrow> all_returned L \<Longrightarrow> main_step app addr fin L (L\<lparr>lf_main := MShutdown\<rparr>)"
| m_shutdown: "lf_main L = MShutdown \<Longrightarrow>
    main_step app addr fin L (L\<lparr>lf_main := MDefer (DCancel2 # DCancel # closers app) 0,
      lf_shut := snd (rec_Shutdown fin (lf_rec L))\<rparr>)"
| m_defer: "lf_main L = MDefer (d # ds) c \<Longrightarrow> main_step app addr fin L ((run_deferred d L)\<lparr>lf_main := MDefer ds c\<rparr>)"
| m_exit: "lf_main L = MDefer [] c \<Longrightarrow> main_step app addr fin L (L\<lparr>lf_main := MExit c\<rparr>)"

text \<open>The other goroutines, while the process lives.  \<open>ops\<close> and \<open>w0\<close> are the handler and the world of the server's pool.\<close>

inductive gor_step :: "('s, 'b) app \<Rightarrow> ('p, 'w) pool_ops \<Rightarrow> 'w \<Rightarrow> ('p, 'w) life \<Rightarrow> ('p, 'w) life \<Rightarrow> bool" for app ops w0 where
  metrics_stop: "lf_metrics L = GRun () \<Longrightarrow> lf_done L \<Longrightarrow> gor_step app ops w0 L (L\<lparr>lf_metrics := GRet\<rparr>)"
| sampler_tick: "lf_sampler L = GRun () \<Longrightarrow> lf_events L = Suc n \<Longrightarrow>
    gor_step app ops w0 L (use_res {DCache} (L\<lparr>lf_events := n, lf_rec := rec_CacheSize len (lf_rec L)\<rparr>))"
| sampler_stop: "lf_sampler L = GRun () \<Longrightarrow> lf_ctx L \<Longrightarrow> gor_step app ops w0 L (L\<lparr>lf_sampler := GRet\<rparr>)"
| ing_fail: "lf_ingress L = GRun IStart \<Longrightarrow> gor_step app ops w0 L (L\<lparr>lf_ingress := GRet\<rparr>)"
| ing_ready: "lf_ingress L = GRun IStart \<Longrightarrow>
    gor_step app ops w0 L (L\<lparr>lf_ingress := GRun IRecv, lf_sock := SockOpen, lf_closer := GRun (),
      lf_rec := rec_WorkerReady (lf_rec L)\<rparr>)"
| ing_recv: "lf_ingress L = GRun IRecv \<Longrightarrow> recv_on (lf_sock L) res \<Longrightarrow> \<not> recv_returns res (lf_ctx L) \<Longrightarrow> lf_events L = Suc n \<Longrightarrow>
    gor_step app ops w0 L (L\<lparr>lf_ingress := GRun (after_recv res), lf_events := n\<rparr>)"
| ing_return: "lf_ingress L = GRun IRecv \<Longrightarrow> recv_on (lf_sock L) res \<Longrightarrow> recv_returns res (lf_ctx L) \<Longrightarrow>
    gor_step app ops w0 L (L\<lparr>lf_ingress := GRet, lf_rec := rec_WorkerDone (lf_rec L)\<rparr>)"
| ing_frame: "lf_ingress L = GRun IFrame \<Longrightarrow> gor_step app ops w0 L (use_res {DCache} (L\<lparr>lf_ingress := GRun IRecv\<rparr>))"
| srv_fail: "lf_server L = GRun SListen \<Longrightarrow> gor_step app ops w0 L (L\<lparr>lf_server := GRet\<rparr>)"
| srv_listen: "lf_server L = GRun SListen \<Longrightarrow>
    gor_step app ops w0 L (L\<lparr>lf_server := GRun (SPool ((pool_start (sv_workers (a_server app)) w0)\<lparr>p_ctx := lf_ctx L\<rparr>)),
      lf_rec := rec_WorkerReady (lf_rec L)\<rparr>)"
| srv_step: "lf_server L = GRun (SPool s) \<Longrightarrow> pool_step ops s s' \<Longrightarrow> p_ctx s' = p_ctx s \<Longrightarrow>
    gor_step app ops w0 L (use_res (pool_uses s) (L\<lparr>lf_server := GRun (SPool s')\<rparr>))"
| srv_return: "lf_server L = GRun (SPool s) \<Longrightarrow> p_reader s = RDone \<Longrightarrow>
    gor_step app ops w0 L (L\<lparr>lf_server := GRet, lf_rec := rec_WorkerDone (lf_rec L)\<rparr>)"
| bea_none: "lf_beacon L = GRun BStart \<Longrightarrow> gor_step app ops w0 L (L\<lparr>lf_beacon := GRet\<rparr>)"
| bea_first: "lf_beacon L = GRun BStart \<Longrightarrow>
    gor_step app ops w0 L (L\<lparr>lf_beacon := GRun BLoop, lf_rec := (rec_BeaconAdvertSent ^^ k) (lf_rec L)\<rparr>)"
| bea_tick: "lf_beacon L = GRun BLoop \<Longrightarrow> lf_events L = Suc n \<Longrightarrow>
    gor_step app ops w0 L (L\<lparr>lf_events := n, lf_rec := (rec_BeaconAdvertSent ^^ k) (lf_rec L)\<rparr>)"
| bea_stop: "lf_beacon L = GRun BLoop \<Longrightarrow> lf_ctx L \<Longrightarrow> gor_step app ops w0 L (L\<lparr>lf_beacon := GRet\<rparr>)"

text \<open>The goroutine that closes the receive socket on cancellation; \<open>wg.Wait()\<close> does not wait for it.\<close>

inductive closer_step :: "('p, 'w) life \<Rightarrow> ('p, 'w) life \<Rightarrow> bool" where
  close_sock: "lf_closer L = GRun () \<Longrightarrow> lf_ctx L \<Longrightarrow> closer_step L (L\<lparr>lf_closer := GRet, lf_sock := SockClosed\<rparr>)"

definition life_step :: "('s, 'b) app \<Rightarrow> err + ip option \<Rightarrow> (shutdown_fn \<Rightarrow> err option) \<Rightarrow> ('p, 'w) pool_ops \<Rightarrow> 'w
    \<Rightarrow> ('p, 'w) life \<Rightarrow> ('p, 'w) life \<Rightarrow> bool" where
  "life_step app addr fin ops w0 L L' \<longleftrightarrow> alive L \<and> (main_step app addr fin L L' \<or> gor_step app ops w0 L L' \<or> closer_step L L')"

section \<open>Invariant\<close>

text \<open>How far the main goroutine has come.\<close>

fun phase :: "main_pc \<Rightarrow> nat" where
  "phase MMetrics = 0"
| "phase MSampler = 1"
| "phase MIngress = 2"
| "phase MServer = 3"
| "phase MBeacon = 4"
| "phase MSignal = 5"
| "phase MDrain = 6"
| "phase MCancel = 7"
| "phase MClose = 8"
| "phase MWait = 9"
| "phase MShutdown = 10"
| "phase (MDefer ds c) = 11"
| "phase (MExit c) = 12"

definition beacon_ok :: "('s, 'b) app \<Rightarrow> err + ip option \<Rightarrow> bool" where
  "beacon_ok app addr \<longleftrightarrow> (BeaconEnabled (a_cfg app) \<longrightarrow> (\<exists>i. addr = Inr i))"

text \<open>The deferred calls that close something.\<close>

definition closing :: "deferred list \<Rightarrow> deferred list" where
  "closing = filter (\<lambda>d. d \<noteq> DCancel2 \<and> d \<noteq> DCancel)"

definition close_inv :: "('s, 'b) app \<Rightarrow> ('p, 'w) life \<Rightarrow> bool" where
  "close_inv app L \<longleftrightarrow> (case lf_main L of
       MDefer ds c \<Rightarrow> c = 0 \<and> suffix ds (DCancel2 # DCancel # closers app) \<and> lf_closed L @ closing ds = closers app
     | MExit c \<Rightarrow> c = 0 \<and> lf_closed L = closers app
     | _ \<Rightarrow> lf_closed L = [])"

definition life_inv :: "('s, 'b) app \<Rightarrow> (('p, 'w) pool \<Rightarrow> bool) \<Rightarrow> ('p, 'w) life \<Rightarrow> bool" where
  "life_inv app G L \<longleftrightarrow> (lf_ctx L \<longleftrightarrow> 8 \<le> phase (lf_main L)) \<and> (9 \<le> phase (lf_main L) \<longrightarrow> lf_done L)
     \<and> (10 \<le> phase (lf_main L) \<longrightarrow> all_returned L)
     \<and> (DrainTimeout (a_cfg app) > 0 \<and> 6 \<le> phase (lf_main L) \<longrightarrow> r_draining (lf_rec L))
     \<and> (11 \<le> phase (lf_main L) \<longrightarrow> lf_shut L = r_shutdown (lf_rec L))
     \<and> (\<forall>s. lf_server L = GRun (SPool s) \<longrightarrow> G s \<and> p_ctx s = lf_ctx L)
     \<and> close_inv app L \<and> \<not> lf_fault L"

lemma closing_closers [simp]: "closing (closers app) = closers app" "closing [] = []"
  "closing (DCancel2 # ds) = closing ds" "closing (DCancel # ds) = closing ds"
  by (simp_all add: closing_def closers_def)

lemma life_start_inv: "life_inv app G (life_start r n)"
  by (simp add: life_inv_def life_start_def close_inv_def)

lemma returned_no_step: "gor_step app ops w0 L L' \<Longrightarrow> \<not> all_returned L"
  by (induction rule: gor_step.induct) (simp_all add: all_returned_def)

lemma gor_step_main: "gor_step app ops w0 L L' \<Longrightarrow> lf_main L' = lf_main L \<and> lf_ctx L' = lf_ctx L \<and> lf_done L' = lf_done L
    \<and> lf_closed L' = lf_closed L \<and> lf_shut L' = lf_shut L"
  by (induction rule: gor_step.induct) (simp_all add: use_res_def)

lemma rec_frame [simp]:
  "r_draining (rec_WorkerReady r) = r_draining r" "r_draining (rec_WorkerDone r) = r_draining r"
  "r_draining (rec_CacheSize n r) = r_draining r" "r_draining ((rec_BeaconAdvertSent ^^ k) r) = r_draining r"
  "r_shutdown (rec_WorkerReady r) = r_shutdown r" "r_shutdown (rec_WorkerDone r) = r_shutdown r"
  "r_shutdown (rec_CacheSize n r) = r_shutdown r" "r_shutdown ((rec_BeaconAdvertSent ^^ k) r) = r_shutdown r"
proof -
  show "r_draining ((rec_BeaconAdvertSent ^^ k) r) = r_draining r" "r_shutdown ((rec_BeaconAdvertSent ^^ k) r) = r_shutdown r"
    by (induction k) (simp_all add: rec_BeaconAdvertSent_def add_metric_def)
qed (simp_all add: rec_WorkerReady_def rec_WorkerDone_def rec_CacheSize_def add_metric_def)

lemma gor_step_rec: "gor_step app ops w0 L L' \<Longrightarrow>
    r_draining (lf_rec L') = r_draining (lf_rec L) \<and> r_shutdown (lf_rec L') = r_shutdown (lf_rec L)"
  by (induction rule: gor_step.induct) (simp_all add: use_res_def)



lemma closer_step_life: "closer_step L L' \<Longrightarrow> life_inv app G L \<Longrightarrow> life_inv app G L'"
  by (induction rule: closer_step.induct) (simp add: life_inv_def close_inv_def all_returned_def split: main_pc.splits)

lemma gor_step_fault: "gor_step app ops w0 L L' \<Longrightarrow> lf_closed L = [] \<Longrightarrow> lf_fault L' = lf_fault L"
  by (induction rule: gor_step.induct) (simp_all add: use_res_def)

text \<open>The steps left after the cancellation.\<close>

fun main_rank :: "main_pc \<Rightarrow> nat" where
  "main_rank MClose = 9"
| "main_rank MWait = 8"
| "main_rank MShutdown = 7"
| "main_rank (MDefer ds c) = length ds + 1"
| "main_rank (MExit c) = 0"
| "main_rank _ = 10"

fun unit_rank :: "unit gor \<Rightarrow> nat" where
  "unit_rank (GRun _) = 1"
| "unit_rank _ = 0"

fun ing_rank :: "ing_pc gor \<Rightarrow> nat" where
  "ing_rank (GRun IStart) = 3"
| "ing_rank (GRun IFrame) = 2"
| "ing_rank (GRun IRecv) = 1"
| "ing_rank _ = 0"

fun bea_rank :: "bea_pc gor \<Rightarrow> nat" where
  "bea_rank (GRun BStart) = 2"
| "bea_rank (GRun BLoop) = 1"
| "bea_rank _ = 0"

fun srv_rank :: "nat \<Rightarrow> ('p \<Rightarrow> nat) \<Rightarrow> nat \<Rightarrow> ('p, 'w) srv_pc gor \<Rightarrow> nat" where
  "srv_rank bound rank n (GRun SListen) = n + 4"
| "srv_rank bound rank n (GRun (SPool s)) = pool_rank bound rank s + 1"
| "srv_rank bound rank n _ = 0"

definition life_rank :: "nat \<Rightarrow> ('p \<Rightarrow> nat) \<Rightarrow> nat \<Rightarrow> ('p, 'w) life \<Rightarrow> nat" where
  "life_rank bound rank n L = main_rank (lf_main L) + unit_rank (lf_metrics L) + unit_rank (lf_sampler L)
     + ing_rank (lf_ingress L) + unit_rank (lf_closer L) + bea_rank (lf_beacon L) + srv_rank bound rank n (lf_server L) + 2 * lf_events L"

lemma main_step_rank:
  "main_step app addr fin L L' \<Longrightarrow> life_inv app G L \<Longrightarrow> lf_ctx L \<Longrightarrow> life_rank bound rank n L' < life_rank bound rank n L"
proof (induction rule: main_step.induct)
  case (m_defer L d ds c)
  then have "all_returned L" "lf_ctx L" by (simp_all add: life_inv_def)
  then have "cancel_ctx L = L" by (cases "lf_server L") (simp_all add: cancel_ctx_def all_returned_def)
  then show ?case using m_defer by (cases d) (simp_all add: life_rank_def)
next
  case (m_shutdown L)
  then show ?case by (simp add: life_rank_def closers_def)
qed (simp_all add: life_inv_def life_rank_def)

lemma life_rank_bound:
  assumes "life_inv app G L"
  shows "life_rank bound rank n L \<le> 18 + 2 * lf_events L + srv_rank bound rank n (lf_server L)"
proof -
  have "length (closers app) \<le> 3" by (simp add: closers_def)
  then have "main_rank (lf_main L) \<le> 10"
    using assms by (cases "lf_main L") (auto simp: life_inv_def close_inv_def dest!: suffix_length_le)
  moreover have "unit_rank (lf_metrics L) \<le> 1" "unit_rank (lf_sampler L) \<le> 1"
    by (cases "lf_metrics L"; simp) (cases "lf_sampler L"; simp)
  moreover have "unit_rank (lf_closer L) \<le> 1" by (cases "lf_closer L") simp_all
  moreover have "ing_rank (lf_ingress L) \<le> 3" by (cases "lf_ingress L" rule: ing_rank.cases) simp_all
  moreover have "bea_rank (lf_beacon L) \<le> 2" by (cases "lf_beacon L" rule: bea_rank.cases) simp_all
  ultimately show ?thesis by (simp add: life_rank_def)
qed

lemma after_recv_rank: "ing_rank (GRun (after_recv res)) \<le> 2"
  by (simp add: after_recv_def split: recv.split)

lemma closer_step_rank:
  "closer_step L L' \<Longrightarrow> lf_ctx L' = lf_ctx L \<and> life_rank bound rank n L' < life_rank bound rank n L"
  by (induction rule: closer_step.induct) (simp add: life_rank_def)

lemma main_step_ctx: "main_step app addr fin L L' \<Longrightarrow> lf_ctx L \<Longrightarrow> lf_ctx L'"
proof (induction rule: main_step.induct)
  case (m_defer L d ds c)
  then show ?case by (cases d) (simp_all add: cancel_ctx_def)
qed (simp_all add: cancel_ctx_def spawn_beacon_def split: sum.split)


context request_handler
begin

lemma good_ctx: "good s \<Longrightarrow> good (s\<lparr>p_ctx := True\<rparr>)"
  by (simp add: good_def pool_inv_def)

lemma start_ctx: "inv w \<Longrightarrow> good ((pool_start n w)\<lparr>p_ctx := b\<rparr>)"
  using start_good [of w n] by (cases b) (auto simp: good_def pool_inv_def pool_start_def)

lemma gor_step_pool:
  "gor_step app ops w0 L L' \<Longrightarrow> inv w0 \<Longrightarrow> (\<And>s. lf_server L = GRun (SPool s) \<Longrightarrow> good s \<and> p_ctx s = lf_ctx L) \<Longrightarrow>
    lf_server L' = GRun (SPool s') \<Longrightarrow> good s' \<and> p_ctx s' = lf_ctx L"
proof (induction rule: gor_step.induct)
  case (srv_listen L)
  then show ?case by (auto simp: start_ctx)
next
  case (srv_step L s t)
  then show ?case using step_good by (auto simp: use_res_def)
qed (auto simp: use_res_def)

lemma gor_step_life:
  assumes "gor_step app ops w0 L L'" "inv w0" "life_inv app good L"
  shows "life_inv app good L'"
proof -
  have "phase (lf_main L) < 10" using returned_no_step [OF assms(1)] assms(3) by (auto simp: life_inv_def)
  then have c: "lf_closed L = []" using assms(3) by (cases "lf_main L") (auto simp: life_inv_def close_inv_def)
  have "\<forall>s'. lf_server L' = GRun (SPool s') \<longrightarrow> good s' \<and> p_ctx s' = lf_ctx L"
    using gor_step_pool [OF assms(1,2)] assms(3) unfolding life_inv_def by blast
  moreover have "close_inv app L'" using assms(3) gor_step_main [OF assms(1)] by (auto simp: life_inv_def close_inv_def split: main_pc.splits)
  ultimately show ?thesis
    using assms(3) \<open>phase (lf_main L) < 10\<close> gor_step_main [OF assms(1)] gor_step_rec [OF assms(1)] gor_step_fault [OF assms(1) c]
    unfolding life_inv_def by simp
qed

lemma cancel_good:
  assumes "\<And>s. lf_server L = GRun (SPool s) \<Longrightarrow> good s" "lf_server (cancel_ctx L) = GRun (SPool s')"
  shows "good s' \<and> p_ctx s'"
  using assms by (auto simp: cancel_ctx_def good_ctx split: gor.splits srv_pc.splits)

lemma main_step_life:
  "main_step app addr fin L L' \<Longrightarrow> beacon_ok app addr \<Longrightarrow> life_inv app good L \<Longrightarrow> life_inv app good L'"
proof (induction rule: main_step.induct)
  case (m_beacon L)
  then show ?case
    by (auto simp: life_inv_def close_inv_def spawn_beacon_def beacon_ok_def split: sum.split)
next
  case (m_signal L)
  then show ?case by (simp add: life_inv_def close_inv_def start_drain_def rec_SetDraining_def)
next
  case (m_cancel L)
  have "good s' \<and> p_ctx s'" if "lf_server (cancel_ctx L) = GRun (SPool s')" for s'
    using cancel_good [OF _ that] m_cancel by (auto simp: life_inv_def)
  then show ?case using m_cancel by (simp add: life_inv_def close_inv_def) (simp add: cancel_ctx_def)
next
  case (m_shutdown L)
  then show ?case by (simp add: life_inv_def close_inv_def rec_Shutdown_def shutdown_loop_calls all_returned_def)
next
  case (m_defer L d ds c)
  then have "all_returned L" "lf_ctx L" by (simp_all add: life_inv_def)
  then have "cancel_ctx L = L" by (cases "lf_server L") (simp_all add: cancel_ctx_def all_returned_def)
  moreover have "suffix ds (DCancel2 # DCancel # closers app)"
    using m_defer by (auto simp: life_inv_def close_inv_def dest: suffix_ConsD)
  ultimately show ?case using m_defer
    by (cases d) (simp_all add: life_inv_def close_inv_def all_returned_def closing_def)
qed (simp_all add: life_inv_def close_inv_def all_returned_def)

lemma life_reach:
  "(life_step app addr fin ops w0)\<^sup>*\<^sup>* L L' \<Longrightarrow> beacon_ok app addr \<Longrightarrow> inv w0 \<Longrightarrow> life_inv app good L \<Longrightarrow> life_inv app good L'"
  by (induction rule: rtranclp_induct) (auto simp: life_step_def intro: main_step_life gor_step_life closer_step_life)

lemma gor_step_rank:
  "gor_step app ops w0 L L' \<Longrightarrow> life_inv app good L \<Longrightarrow> lf_ctx L \<Longrightarrow>
    life_rank bound rank (nat (sv_workers (a_server app))) L' < life_rank bound rank (nat (sv_workers (a_server app))) L"
proof (induction rule: gor_step.induct)
  case (srv_listen L)
  then show ?case
    by (simp add: life_rank_def pool_rank_def pool_start_def sum_list_replicate)
next
  case (srv_step L s s')
  then have "good s" "p_ctx s" by (simp_all add: life_inv_def)
  moreover from this have "good s'" using step_good srv_step by blast
  ultimately have "pool_rank bound rank s' < pool_rank bound rank s"
    using step_rank [OF srv_step(2)] by (simp add: good_def)
  then show ?case using srv_step by (simp add: life_rank_def use_res_def)
next
  case (ing_recv L res n)
  then show ?case using after_recv_rank [of res] by (simp add: life_rank_def)
qed (simp_all add: life_rank_def use_res_def)

lemma life_steps_bounded:
  assumes "beacon_ok app addr" "inv w0"
  shows "(life_step app addr fin ops w0 ^^ n) L L' \<Longrightarrow> life_inv app good L \<Longrightarrow> lf_ctx L \<Longrightarrow>
    life_inv app good L' \<and> lf_ctx L' \<and> n + life_rank bound rank (nat (sv_workers (a_server app))) L'
      \<le> life_rank bound rank (nat (sv_workers (a_server app))) L"
proof (induction n arbitrary: L')
  case (Suc n)
  then obtain M where M: "(life_step app addr fin ops w0 ^^ n) L M" "life_step app addr fin ops w0 M L'" by auto
  with Suc have "life_inv app good M" "lf_ctx M" "n + life_rank bound rank (nat (sv_workers (a_server app))) M
      \<le> life_rank bound rank (nat (sv_workers (a_server app))) L" by auto
  moreover from this M(2) have "life_inv app good L'"
    using assms main_step_life gor_step_life closer_step_life by (auto simp: life_step_def)
  moreover have "lf_ctx L'"
    using M(2) \<open>lf_ctx M\<close> main_step_ctx gor_step_main [of app ops w0 M L'] closer_step_rank [of M L'] by (auto simp: life_step_def)
  moreover have "life_rank bound rank (nat (sv_workers (a_server app))) L' < life_rank bound rank (nat (sv_workers (a_server app))) M"
    using M(2) \<open>life_inv app good M\<close> \<open>lf_ctx M\<close> main_step_rank gor_step_rank closer_step_rank [of M L'] by (auto simp: life_step_def)
  ultimately show ?case by simp
qed simp

text \<open>After the cancellation every goroutine that runs has a step.\<close>

lemma running_steps:
  assumes "life_inv app good L" "lf_ctx L" "lf_done L" "\<not> all_returned L"
  shows "\<exists>L'. gor_step app ops w0 L L'"
proof -
  have steps: "\<exists>L'. gor_step app ops w0 L L'" if "lf_metrics L = GRun ()" using metrics_stop [OF that assms(3)] by blast
  have recv: "recv_on (lf_sock L) (if lf_sock L = SockClosed then REBADF else REAGAIN)"
      "recv_returns (if lf_sock L = SockClosed then REBADF else REAGAIN) (lf_ctx L)"
    using assms(2) by (simp_all add: recv_on_def)
  have stepi: "\<exists>L'. gor_step app ops w0 L L'" if "lf_ingress L = GRun i" for i
    using that by (cases i) (blast intro: gor_step.ing_fail gor_step.ing_return [OF _ recv] gor_step.ing_frame)+
  have stepb: "\<exists>L'. gor_step app ops w0 L L'" if "lf_beacon L = GRun b" for b
    using that assms(2) by (cases b) (blast intro: gor_step.bea_none gor_step.bea_stop)+
  have stepv: "\<exists>L'. gor_step app ops w0 L L'" if v: "lf_server L = GRun v" for v
  proof (cases v)
    case (SPool s)
    then have s: "good s" "p_ctx s" using assms(1,2) v by (simp_all add: life_inv_def)
    show ?thesis
    proof (cases "p_reader s = RDone")
      case False
      then obtain s' where s': "pool_step ops s s'" using stuck_is_done [OF s] by blast
      then have "p_ctx s'" using step_rank [OF s' s(2,1)] step_good [OF s' s(1)] by (simp add: good_def)
      then show ?thesis using gor_step.srv_step [OF _ s'] v SPool s(2) by blast
    qed (use v SPool in \<open>blast intro: gor_step.srv_return\<close>)
  qed (use v in \<open>blast intro: gor_step.srv_fail\<close>)
  have "running g \<Longrightarrow> \<exists>x. g = GRun x" for g :: "'z gor" by (cases g) simp_all
  then show ?thesis using assms(4) steps stepi stepb stepv gor_step.sampler_stop [OF _ assms(2)]
    unfolding all_returned_def by (metis (full_types) old.unit.exhaust running.elims(2))
qed

lemma stuck_is_exit:
  assumes "life_inv app good L" "lf_ctx L" "\<And>L'. \<not> life_step app addr fin ops w0 L L'"
  shows "lf_main L = MExit 0"
proof (rule ccontr)
  assume ne: "lf_main L \<noteq> MExit 0"
  have ph: "8 \<le> phase (lf_main L)" using assms(1,2) by (simp add: life_inv_def)
  then have al: "alive L" using assms(1) ne by (cases "lf_main L") (auto simp: alive_def life_inv_def close_inv_def)
  have "\<exists>L'. main_step app addr fin L L' \<or> gor_step app ops w0 L L'"
  proof (cases "lf_main L")
    case MWait
    then have "lf_done L" using assms(1) by (simp add: life_inv_def)
    then show ?thesis using assms(1,2) running_steps [of app L w0] main_step.m_wait [OF MWait] by blast
  next
    case (MDefer ds c)
    then show ?thesis using main_step.m_defer main_step.m_exit by (cases ds) blast+
  qed (use ph al in \<open>auto simp: alive_def intro: main_step.intros\<close>)
  then show False using assms(3) al by (auto simp: life_step_def)
qed

end

section \<open>Every state can still exit\<close>

lemma main_progress:
  assumes "beacon_ok app addr" "phase (lf_main L) < 8"
  shows "\<exists>L'. main_step app addr fin L L' \<and> phase (lf_main L) < phase (lf_main L')"
proof (cases "lf_main L")
  case MBeacon
  then have "phase (lf_main (spawn_beacon app addr L)) = 5"
    using assms(1) by (auto simp: spawn_beacon_def beacon_ok_def)
  then show ?thesis using main_step.m_beacon [OF MBeacon] MBeacon by fastforce
next
  case MSignal
  then show ?thesis using main_step.m_signal [OF MSignal, of app addr fin] by (intro exI conjI) (assumption, simp)
qed (use assms(2) main_step.m_metrics [of L app addr fin] main_step.m_sampler [of L app addr fin]
    main_step.m_ingress [of L app addr fin] main_step.m_server [of L app addr fin]
    main_step.m_drained [of L app addr fin] main_step.m_cancel [of L app addr fin] in \<open>fastforce+\<close>)

context request_handler
begin

lemma can_cancel:
  assumes "beacon_ok app addr" "inv w0" "life_inv app good L"
  shows "\<exists>L'. (life_step app addr fin ops w0)\<^sup>*\<^sup>* L L' \<and> life_inv app good L' \<and> lf_ctx L'"
  using assms(3)
proof (induction "8 - phase (lf_main L)" arbitrary: L rule: less_induct)
  case less
  show ?case
  proof (cases "lf_ctx L")
    case False
    then have "phase (lf_main L) < 8" using less.prems by (auto simp: life_inv_def)
    from main_progress [OF assms(1) this] obtain M where
      M: "main_step app addr fin L M" "phase (lf_main L) < phase (lf_main M)" by blast
    have "alive L" using \<open>phase (lf_main L) < 8\<close> by (cases "lf_main L") (simp_all add: alive_def)
    then have step: "life_step app addr fin ops w0 L M" using M(1) by (simp add: life_step_def)
    have "8 - phase (lf_main M) < 8 - phase (lf_main L)" using M(2) \<open>phase (lf_main L) < 8\<close> by simp
    from less.hyps [OF this main_step_life [OF M(1) assms(1) less.prems]] step show ?thesis
      by (meson converse_rtranclp_into_rtranclp)
  qed (use less.prems in blast)
qed

lemma can_finish:
  assumes "beacon_ok app addr" "inv w0" "life_inv app good L" "lf_ctx L"
  shows "\<exists>L'. (life_step app addr fin ops w0)\<^sup>*\<^sup>* L L' \<and> lf_main L' = MExit 0"
  using assms(3,4)
proof (induction "life_rank bound rank (nat (sv_workers (a_server app))) L" arbitrary: L rule: less_induct)
  case less
  show ?case
  proof (cases "\<exists>M. life_step app addr fin ops w0 L M")
    case True
    then obtain M where M: "life_step app addr fin ops w0 L M" ..
    then have "(life_step app addr fin ops w0 ^^ 1) L M" by (simp only: relpowp_1)
    from life_steps_bounded [OF assms(1,2) this less.prems] show ?thesis
      using less.hyps [of M] M by (auto intro: converse_rtranclp_into_rtranclp)
  next
    case False
    then show ?thesis using stuck_is_exit [OF less.prems] by blast
  qed
qed

end

section \<open>An example process\<close>

lemma ex_world_sane: "limiter_sane (nw_lim (ex_world n))"
  by (simp add: limiter_sane_def ex_world_def ex_limiter_def newSequenceLimiter_def newSlidingWindowLimiter_def sane_def)

lemma ex_beacon_ok: "beacon_ok app (Inr i)"
  by (simp add: beacon_ok_def)

text \<open>Any process can be taken to its cancellation and to its exit.\<close>

lemma ex_cancel:
  assumes "beacon_ok app addr"
  shows "\<exists>L. (life_step app addr fin (nack_pool fp P sv) (ex_world 1))\<^sup>*\<^sup>* (life_start r n) L
    \<and> life_inv app np.good L \<and> lf_ctx L"
  using np.can_cancel [OF assms, of "ex_world 1"] ex_world_sane life_start_inv by blast


text \<open>The deferred calls run to their end.\<close>

lemma defers_run:
  "lf_main L = MDefer ds c \<Longrightarrow> \<exists>L'. (life_step app addr fin ops w0)\<^sup>*\<^sup>* L L' \<and> lf_main L' = MDefer [] c
    \<and> lf_ingress L' = lf_ingress L \<and> lf_closed L' = lf_closed L @ closing ds"
proof (induction ds arbitrary: L)
  case (Cons d ds)
  let ?M = "(run_deferred d L)\<lparr>lf_main := MDefer ds c\<rparr>"
  have step: "life_step app addr fin ops w0 L ?M"
    using main_step.m_defer [OF Cons.prems, of app addr fin] Cons.prems by (simp add: life_step_def alive_def)
  have "lf_ingress ?M = lf_ingress L" "lf_closed ?M @ closing ds = lf_closed L @ closing (d # ds)"
    by (cases d; simp add: cancel_ctx_def closing_def)+
  moreover obtain L' where L': "(life_step app addr fin ops w0)\<^sup>*\<^sup>* ?M L'" "lf_main L' = MDefer [] c"
    "lf_ingress L' = lf_ingress ?M" "lf_closed L' = lf_closed ?M @ closing ds" using Cons.IH [of ?M] by auto
  moreover have "(life_step app addr fin ops w0)\<^sup>*\<^sup>* L L'" using step L'(1) by (rule converse_rtranclp_into_rtranclp)
  ultimately show ?case by metis
qed auto

section \<open>Properties\<close>



text \<open>C13: The shutdown ends, in a process whose second look at the NACK address succeeded (or was not needed).  After the cancellation only
  boundedly many steps are left, in terms of the events still to
  come and of the requests and workers of the NACK server, whatever the scheduler does; and the only state
  without a further step is the exit of the process with code 0, everything closed and the metrics shut down.  The ingress loop
  ends because it checks the context whenever its receive timeout expires, or finds its socket closed.\<close>

theorem shutdown_completes:
  assumes "BeaconEnabled (a_cfg app) \<longrightarrow> (\<exists>i. addr = Inr i)" "limiter_sane (nw_lim w0)"
    and "(life_step app addr fin (nack_pool fp P sv) w0)\<^sup>*\<^sup>* (life_start r n) L" "lf_ctx L"
    and "(life_step app addr fin (nack_pool fp P sv) w0 ^^ m) L L'"
  shows "m \<le> 18 + 2 * lf_events L + (case lf_server L of
        GRun SListen \<Rightarrow> nat (sv_workers (a_server app)) + 4
      | GRun (SPool s) \<Rightarrow> 17 + 12 * length (p_chan s) + 12 * length (p_workers s)
      | _ \<Rightarrow> 0)
    \<and> ((\<nexists>M. life_step app addr fin (nack_pool fp P sv) w0 L' M) \<longrightarrow>
        lf_main L' = MExit 0 \<and> lf_closed L' = closers app \<and> lf_shut L' = r_shutdown (lf_rec L'))"
proof -
  have ok: "beacon_ok app addr" using assms(1) by (simp add: beacon_ok_def)
  have i: "life_inv app np.good L" using np.life_reach [OF assms(3) ok] assms(2) life_start_inv by blast
  note b = np.life_steps_bounded [OF ok _ assms(5) i assms(4)]
  have "life_rank 10 pc_rank (nat (sv_workers (a_server app))) L
      \<le> 18 + 2 * lf_events L + srv_rank 10 pc_rank (nat (sv_workers (a_server app))) (lf_server L)"
    using i by (rule life_rank_bound)
  also have "\<dots> \<le> 18 + 2 * lf_events L + (case lf_server L of GRun SListen \<Rightarrow> nat (sv_workers (a_server app)) + 4
      | GRun (SPool s) \<Rightarrow> 17 + 12 * length (p_chan s) + 12 * length (p_workers s) | _ \<Rightarrow> 0)"
    using pool_rank_bound [unfolded add.assoc] by (auto split: gor.split srv_pc.split)
  finally have "m \<le> \<dots>" using b assms(2) by simp
  moreover have "lf_main L' = MExit 0" if "\<nexists>M. life_step app addr fin (nack_pool fp P sv) w0 L' M"
    using np.stuck_is_exit [of app L' addr fin fp P sv w0] that b assms(2) by blast
  moreover have "lf_main L' = MExit 0 \<Longrightarrow> lf_closed L' = closers app \<and> lf_shut L' = r_shutdown (lf_rec L')"
    using b assms(2) by (simp add: life_inv_def close_inv_def)
  ultimately show ?thesis by blast
qed

theorem shutdown_completes_witness:
  "\<exists>(app :: (unit, int) app) fds' L. run_setup ex_shard ex_run [] = (Inr app, fds') \<and> lf_ctx L
    \<and> (\<forall>m L'. (life_step app (Inr None) (\<lambda>_. None) (nack_pool ex_frame ex_rate (a_server app)) (ex_world 1) ^^ m) L L'
         \<and> (\<nexists>M. life_step app (Inr None) (\<lambda>_. None) (nack_pool ex_frame ex_rate (a_server app)) (ex_world 1) L' M)
         \<longrightarrow> lf_main L' = MExit 0)"
proof -
  obtain app :: "(unit, int) app" and fds' where a: "run_setup ex_shard ex_run [] = (Inr app, fds')"
    using ex_run_setup by blast
  let ?step = "life_step app (Inr None) (\<lambda>_. None) (nack_pool ex_frame ex_rate (a_server app)) (ex_world 1)"
  obtain L where L: "?step\<^sup>*\<^sup>* (life_start (a_rec app) 3) L" "lf_ctx L"
    using ex_cancel [OF ex_beacon_ok] by blast
  have "lf_main L' = MExit 0" if "(?step ^^ m) L L'" "\<nexists>M. ?step L' M" for m L'
    using shutdown_completes [OF _ ex_world_sane L that(1)] that(2) by blast
  then show ?thesis using a L(2) by blast
qed

text \<open>C38: With a drain time configured, in a process whose second look at the NACK address succeeded, readiness is withdrawn before anything is stopped: from the signal on, in
  particular in every state after the cancellation, \<open>/readyz\<close> answers 503 although the components may still be up.\<close>

theorem drain_before_stop:
  assumes "BeaconEnabled (a_cfg app) \<longrightarrow> (\<exists>i. addr = Inr i)" "limiter_sane (nw_lim w0)"
    and "(life_step app addr fin (nack_pool fp P sv) w0)\<^sup>*\<^sup>* (life_start r n) L"
    and "0 < DrainTimeout (a_cfg app)" "lf_ctx L \<or> lf_main L = MDrain"
  shows "fst (handleReadyz (lf_rec L)) = 503"
proof -
  have "life_inv app np.good L"
    using np.life_reach [OF assms(3)] assms(1,2) life_start_inv by (auto simp: beacon_ok_def)
  then have "r_draining (lf_rec L)" using assms(4,5) by (auto simp: life_inv_def)
  then show ?thesis by (simp add: readyz_status)
qed

theorem drain_before_stop_witness:
  "\<exists>(app :: (unit, int) app) L. DrainTimeout (a_cfg app) = second
    \<and> (life_step app (Inr None) (\<lambda>_. None) (nack_pool ex_frame ex_rate (a_server app)) (ex_world 1))\<^sup>*\<^sup>*
        (life_start (a_rec app) 3) L
    \<and> lf_ctx L \<and> fst (handleReadyz (lf_rec L)) = 503"
proof -
  obtain app0 :: "(unit, int) app" and fds' where "run_setup ex_shard ex_run [] = (Inr app0, fds')"
    using ex_run_setup by blast
  let ?app = "app0\<lparr>a_cfg := (a_cfg app0)\<lparr>DrainTimeout := second\<rparr>\<rparr>"
  have d: "0 < DrainTimeout (a_cfg ?app)" "DrainTimeout (a_cfg ?app) = second" by simp_all
  obtain L where L: "(life_step ?app (Inr None) (\<lambda>_. None) (nack_pool ex_frame ex_rate (a_server ?app)) (ex_world 1))\<^sup>*\<^sup>*
      (life_start (a_rec ?app) 3) L" "lf_ctx L"
    using ex_cancel [OF ex_beacon_ok] by blast
  then show ?thesis using drain_before_stop [OF _ ex_world_sane L(1) d(1)] d(2) by blast
qed

text \<open>C40: When the second look at the NACK address fails, \<open>run\<close> returns its error although goroutines are running: there is
  an execution in which the ingress worker stores a frame in a cache that the deferred calls have already closed.\<close>

theorem beacon_error_closes_early:
  fixes ops :: "('p, 'w) pool_ops"
  assumes "BeaconEnabled (a_cfg app)" "addr = Inl e"
  shows "\<exists>L. (life_step app addr fin ops w0)\<^sup>*\<^sup>* (life_start r 1) L \<and> lf_main L = MDefer [] 1 \<and> lf_fault L"
proof -
  let ?step = "life_step app addr fin ops w0"
  let ?L0 = "life_start r 1 :: ('p, 'w) life"
  let ?L1 = "?L0\<lparr>lf_main := MSampler, lf_metrics := GRun ()\<rparr>"
  let ?L2 = "?L1\<lparr>lf_main := MIngress, lf_sampler := (if has_sizer app then GRun () else GNone)\<rparr>"
  let ?L3 = "?L2\<lparr>lf_main := MServer, lf_ingress := GRun IStart\<rparr>"
  let ?L4 = "?L3\<lparr>lf_ingress := GRun IRecv, lf_sock := SockOpen, lf_closer := GRun (), lf_rec := rec_WorkerReady r\<rparr>"
  let ?L5 = "?L4\<lparr>lf_ingress := GRun IFrame, lf_events := 0\<rparr>"
  let ?L6 = "?L5\<lparr>lf_main := MBeacon, lf_server := GRun SListen\<rparr>"
  let ?L7 = "spawn_beacon app addr ?L6"
  note unfold = life_step_def alive_def life_start_def
  have "?step ?L0 ?L1" using main_step.m_metrics [of ?L0 app addr fin] by (simp add: unfold)
  moreover have "?step ?L1 ?L2" using main_step.m_sampler [of ?L1 app addr fin] by (simp add: unfold)
  moreover have "?step ?L2 ?L3" using main_step.m_ingress [of ?L2 app addr fin] by (simp add: unfold)
  moreover have "?step ?L3 ?L4" using gor_step.ing_ready [of ?L3 app ops w0] by (simp add: unfold)
  moreover have "?step ?L4 ?L5" using gor_step.ing_recv [of ?L4 "RData [0]" 0 app ops w0]
    by (simp add: unfold recv_on_def after_recv_def)
  moreover have "?step ?L5 ?L6" using main_step.m_server [of ?L5 app addr fin] by (simp add: unfold)
  moreover have "?step ?L6 ?L7" using main_step.m_beacon [of ?L6 app addr fin] by (simp add: unfold)
  ultimately have "?step\<^sup>*\<^sup>* ?L0 ?L7" by (meson converse_rtranclp_into_rtranclp rtranclp.rtrancl_refl)
  moreover have "lf_main ?L7 = MDefer (DCancel # closers app) 1" "lf_ingress ?L7 = GRun IFrame"
    using assms by (simp_all add: spawn_beacon_def)
  ultimately obtain L7 where L7: "?step\<^sup>*\<^sup>* ?L0 L7" "lf_main L7 = MDefer (DCancel # closers app) 1"
    "lf_ingress L7 = GRun IFrame" by blast
  from defers_run [OF L7(2), of app addr fin ops w0] obtain L8 where L8: "?step\<^sup>*\<^sup>* L7 L8" "lf_main L8 = MDefer [] 1"
    "lf_ingress L8 = GRun IFrame" "lf_closed L8 = lf_closed L7 @ closers app" using L7(3) by auto
  then have "DCache \<in> set (lf_closed L8)" by (simp add: closers_def)
  let ?L9 = "use_res {DCache} (L8\<lparr>lf_ingress := GRun IRecv\<rparr>)"
  have "?step L8 ?L9" using gor_step.ing_frame [OF L8(3)] L8(2) by (auto simp: life_step_def alive_def)
  then have "?step\<^sup>*\<^sup>* ?L0 ?L9" using L7(1) L8(1) by (meson rtranclp.rtrancl_into_rtrancl rtranclp_trans)
  moreover have "lf_main ?L9 = MDefer [] 1" "lf_fault ?L9" using L8 \<open>DCache \<in> _\<close> by (simp_all add: use_res_def)
  ultimately show ?thesis by blast
qed

theorem beacon_error_closes_early_witness:
  "\<exists>(app :: (unit, int) app) fds' L. run_setup ex_shard ex_run [] = (Inr app, fds')
    \<and> (life_step app (Inl (Err ''no global-unicast IPv6 address'')) (\<lambda>_. None)
         (nack_pool ex_frame ex_rate (a_server app)) (ex_world 1))\<^sup>*\<^sup>* (life_start (a_rec app) 1) L
    \<and> lf_fault L"
proof -
  obtain app :: "(unit, int) app" and fds' where a: "run_setup ex_shard ex_run [] = (Inr app, fds')" "BeaconEnabled (a_cfg app)"
    using ex_run_setup by blast
  from beacon_error_closes_early [where fin = "\<lambda>_. None" and ?w0.0 = "ex_world 1" and r = "a_rec app"
      and ops = "nack_pool ex_frame ex_rate (a_server app)", OF a(2) refl] show ?thesis using a(1) by blast
qed

end
