(* ===== verification/Spec2Isabelle.thy ===== *)
theory Spec2Isabelle
  imports Endpoint Lifecycle
begin

text \<open>
  A model of \<^bold>\<open>bitcoin-retry-endpoint\<close>, a Go service that caches multicast transaction frames and
  retransmits them on request.  Its parts and how they interact: the \<^emph>\<open>ingress worker\<close>
  (\<open>ingress/ingress.go\<close>) receives frames on a UDP socket joined to the multicast groups of all shards, decodes
  them and stores each stamped one in the \<^emph>\<open>cache\<close> (\<open>cache/cache.go\<close>; backends
  \<open>cache/memory/memory.go\<close> and \<open>cache/redis/redis.go\<close>) under \<open>HashKey || SeqNum\<close>.  The \<^emph>\<open>NACK server\<close>
  (\<open>server/server.go\<close>) reads 64-byte requests into a bounded channel; its workers pass each through the
  \<^emph>\<open>rate limiter\<close> (\<open>ratelimit/ratelimit.go\<close>), look the frame up, hand a hit to the
  \<^emph>\<open>retransmitter\<close> (\<open>retransmit/retransmit.go\<close>), which sends it to its multicast group unless another
  endpoint has claimed it in Redis, and answer with ACK or MISS.  The \<^emph>\<open>beacon\<close> (\<open>beacon/beacon.go\<close>)
  announces the endpoint.  \<open>config/config.go\<close> validates the configuration, \<open>main.go\<close> wires the parts,
  \<open>metrics/metrics.go\<close> counts and answers readiness probes.

  \<^bold>\<open>Theories and what they model.\<close>
  \<^item> \<open>Go_Base\<close>: the prelude.  Words, byte slices and \<open>encoding/binary\<close>, conversions of floats, Go
    maps as association lists, slices into a heap of arrays, panics and errors as values; the round trips of the big-endian codecs
    and the map lemmas all other theories use.
  \<^item> \<open>Go_Net\<close>: addresses, \<open>net.IP.String\<close> and the formatting of the limiter's keys, with injectivity.
  \<^item> \<open>Go_Float\<close>: rounding to \<open>float64\<close> and its error; \<open>Go_Parse\<close>: \<open>net.ParseIP\<close>, which inverts \<open>net.IP.String\<close>, and
    \<open>time.ParseDuration\<close>, exact on a number with a unit.
  \<^item> \<open>Deps\<close>: the packages \<open>frame\<close> and \<open>shard\<close> of the module \<open>bitcoin-shard-common\<close>, which is not part of the
    repository, as parameter records.
  \<^item> \<open>Window_Spec\<close>: the specification of a sliding-window limiter (it keeps the full log) and the locale
    \<open>window_limiter\<close>; \<open>Rate_Limit\<close>: the four tiers, both windows interpreting that locale.
  \<^item> \<open>Cache_Iface\<close>: the locale \<open>frame_cache\<close>, the contract of \<open>cache.Cache\<close>; \<open>Memory_Cache\<close> and
    \<open>Redis_Cache\<close>: the backends, each interpreting it; \<open>Cache_Ops\<close>: the interface value its clients hold.
  \<^item> \<open>Metrics\<close>, \<open>Retransmit\<close>, \<open>Ingress\<close>, \<open>Nack_Server\<close>, \<open>Beacon\<close>, \<open>Config\<close>: one theory per package, in the
    order of its source.
  \<^item> \<open>Nack_Steps\<close>: the handler one critical section at a time (\<open>nack_step\<close> on the program counter \<open>nack_pc\<close>), equal to
    \<open>processNACK\<close> when it runs alone, and what each step keeps.
  \<^item> \<open>Worker_Pool\<close>: \<open>Server.Run\<close> as a step relation of reader, channel, workers and canceller in which the critical sections of
    all handlers interleave, with the locale \<open>request_handler\<close> for what it needs of the handler, interpreted on \<open>nack_step\<close>.
  \<^item> \<open>Startup\<close>: \<open>run\<close> of \<open>main.go\<close> up to the goroutines, the block that builds the beacon after them, and its helpers; \<open>Lifecycle\<close>: \<open>run\<close> from the first goroutine to
    the exit of the process, as a step relation of the main goroutine and all it starts, the NACK server being the pool.
  \<^item> \<open>Endpoint\<close>: the components composed, and sequences of requests whose cache lookups are recorded (\<open>traced_env\<close>, without which the runs are those of the handler); this theory: the properties that span components.

  \<^bold>\<open>How code becomes definitions.\<close>  A struct is a record, a method a function from the state to the result
  and the new state, a Go error \<open>Inl\<close> or \<open>Some\<close>, a panic \<open>Inl\<close> of type \<open>panic\<close>.  State that several components share (the
  recorder, the Redis client) is in the record of each caller's world and passed through.  What the environment
  decides is an argument: clock readings, results of system calls and writes, the order in which the runtime ranges
  over a map, the datagrams that arrive.  Third-party packages are parameters (\<open>rate_pkg\<close>,
  \<open>redis_client\<close>, \<open>frame_pkg\<close>, \<open>shard_pkg\<close>); theorems that need their documented behaviour name it as a
  hypothesis (\<open>redis_laws\<close>, \<open>redis_up\<close>, the bound of the group index), and their witnesses instantiate it (\<open>ref_redis\<close>,
  \<open>ex_shard\<close>).  Loops are structural recursions or have a termination proof; the only fuel is the number of steps
  of \<open>nack_exec\<close>, of which ten always suffice, and \<open>lf_events\<close>, the arbitrary number of ticks and datagrams a process still sees.  Times and durations are unbounded
  integers in nanoseconds; counters of the wire formats and the group indices are words.

  \<^bold>\<open>What the lemmas show.\<close>  For the cache: the backends refine a map with time-to-live and never return what was not stored;
  with the in-memory backend, stored slices alias the receive buffer, so only the latest datagram is served
  verbatim (\<open>Ingress\<close>, and below).  For the limiter: while the clock readings do not go back in the order of the mutex, both windows
  decide as the full log does and any window admits at most the maximum; the code reads the clock before the mutex, so the
  bounds are stated for readings up to \<open>\<delta>\<close> behind earlier ones (\<open>clock_skew\<close>), and the skew is shown to matter.  For the handler: answers are honest, refused requests touch
  nothing, no request panics it.  For the pool, in every interleaving: no panic, order and at-most-once, answers only to their own
  requests, a well-formed limiter, bounded shutdown.  For the process, when its second look at the NACK address succeeds: nothing that components share is
  closed under a running one, draining comes first, the shutdown ends with everything closed; and what happens when that look fails.  For the recorder: it is complete or not built.  For the retransmitter:
  verbatim sending to the group of the frame version, exclusion through the dedup gate, descriptor hygiene.  For beacon, configuration and
  start-up: round trips, ranges, and that the parts fit together.

  \<^bold>\<open>Not modelled.\<close>  Log output; the internals of OpenTelemetry, of the HTTP server and of the Redis client; the data race on a cached
  slice while the ingress worker overwrites its buffer (a lookup sees the buffer as a whole before or after a datagram); the contents of cache and
  counters in \<open>Lifecycle\<close>, which follows control and resources only; the reuse of the number of a closed descriptor by another
  socket.  \<open>Lifecycle\<close> relies on the receive timeout that the ingress worker sets (a failure to set it is ignored by the code).

  \<^bold>\<open>Plan.\<close>  Next: \<open>strconv.ParseFloat\<close> and the \<open>flag\<close> package instead of parameters, the contents of the shared cache across the goroutines of
  \<open>Lifecycle\<close>, and the sequence tier's bound along interleaved executions of the pool, in terms of the skew of its workers' clock readings.
\<close>

section \<open>Properties that span components\<close>

text \<open>C1: From ingress to retransmission, with the Redis backend.  A stamped frame that arrives on the
  multicast socket is cached; a NACK for its HashKey and SeqNum that arrives within the time-to-live,
  passes the rate limits and whose SeqNum no endpoint has claimed in the dedup window, makes the endpoint
  send the frame verbatim on every egress socket, to the group its version selects, and acknowledges
  the SeqNum to the requester.  (The Redis server answers its commands, the writes succeed.)\<close>

theorem ingested_frame_is_retransmitted:
  fixes w :: "('s rt_world, 'b) nack_world"
  assumes redis: "redis_laws db (rd_client (iw_cache wi))" "redis_up (rd_client (iw_cache wi))"
    and ttl: "ttl_ok (wk_ttl wk)" "ttl_ok (rt_dedupWindow rt)"
    and frame: "decode_any fp raw = Inr f" "d_SeqNum f \<noteq> 0" "56 \<le> length raw" "length raw \<le> recvBufSize"
    and received: "re_recv ev = RData raw" "recv_step fp redis_ops wk a ev (h, wi) = (False, h', wi')"
    and nack: "validateNACK fp d = None" "nack_hash d = d_HashKey f" "nack_start d = d_SeqNum f" "nack_end d = d_SeqNum f"
    and world: "w_redis (nw_x w) = Some (iw_cache wi')"
    and limits: "pre_tiers P (redis_env fp sp rt nc :: 's rt_world nack_env) (ua_ip src) (nack_hash d) (nack_start d) (nw_lim w)
         = Inr (None, lm)"
      "\<not> throttles P sv (nc_tGroup nc) (ua_ip src) (frame_txid raw) lm"
    and times: "re_now ev \<le> nc_tGet nc" "nc_tGet nc < re_now ev + wk_ttl wk" "nc_tGet nc \<le> nc_tNX nc"
    and unclaimed: "redis_view db (iw_cache wi) (nc_tNX nc) (sub raw 48 56) = None"
    and writes: "\<And>n c. (n, c) \<in> set (rt_sockets rt) \<Longrightarrow> nc_egress nc c = None" "\<And>b. nc_WriteTo nc b src = None"
    and acks: "\<not> sv_suppressACK sv"
  shows "\<exists>w'. processNACK fp P sv (redis_env fp sp rt nc) d (Some src) w = Inr w'
    \<and> w_egress (nw_x w') = w_egress (nw_x w)
        @ map (\<lambda>(n, c). (c, raw, retransmit_group fp sp rt raw (frame_txid raw)))
            (range_over (nc_ord nc) (rt_sockets rt))
    \<and> nw_sent w' = nw_sent w @ [(src, response_bytes fp msgTypeACK 1 (d_SeqNum f))]"
proof -
  let ?c = "iw_cache wi'" and ?k = "frame_key (d_HashKey f) (d_SeqNum f)"
  have c: "rd_client ?c = rd_client (iw_cache wi)" "redis_view db ?c (nc_tGet nc) ?k = Some raw"
    "redis_view db ?c (nc_tNX nc) (sub raw 48 56) = None"
    using received_frame_stored [OF redis ttl(1) frame received] times unclaimed frame(3) by auto
  let ?c1 = "snd (redis_Retrieve (nc_tGet nc) ?k ?c)"
  let ?x = "(nw_x w)\<lparr>w_redis := Some ?c1\<rparr>"
  have get: "fst (redis_Retrieve (nc_tGet nc) ?k ?c) = Inr (Some raw)"
    using redis_Retrieve_up [of db ?c "nc_tGet nc" ?k] redis c by simp
  have look: "ne_Retrieve (redis_env fp sp rt nc) (frame_key (nack_hash d) (nack_start d)) (nw_x w) = (Inr (Some raw), ?x)"
    using world get nack by (simp add: redis_env_def case_prod_beta)
  have c1: "rd_client ?c1 = rd_client ?c" by (simp add: redis_Retrieve_snd)
  have free: "redis_view db ?c1 (nc_tNX nc) (sub raw 48 56) = None"
    using redis.view_retrieve [of db ?c "nc_tGet nc" "nc_tNX nc" ?k "sub raw 48 56"] redis c times
    by (simp add: redis_inv_def)
  have send: "egress_loop (nc_egress nc) raw g (range_over (nc_ord nc) (rt_sockets rt)) (v :: 's rt_world)
      = (None, v\<lparr>w_egress := w_egress v @ map (\<lambda>(n, c). (c, raw, g)) (range_over (nc_ord nc) (rt_sockets rt))\<rparr>)" for g v
    by (rule egress_range) (rule writes(1))
  have rt: "\<exists>rc' y. ne_Retransmit (redis_env fp sp rt nc) raw (frame_txid raw) rc ?x = (None, rc', y)
      \<and> w_egress y = w_egress (nw_x w)
          @ map (\<lambda>(n, c). (c, raw, retransmit_group fp sp rt raw (frame_txid raw)))
            (range_over (nc_ord nc) (rt_sockets rt))" for rc
  proof -
    have "\<exists>x'. dedup_gate rt (nc_tNX nc) raw (?x\<lparr>w_rec := rc\<rparr>) = (True, x') \<and> w_egress x' = w_egress (nw_x w)"
      using dedup_gate_free [of "?x\<lparr>w_rec := rc\<rparr>" ?c1 db rt raw "nc_tNX nc"] redis c c1 ttl frame free
      by (auto simp: redis_laws_def redis_view_def)
    then show ?thesis
      by (auto simp: redis_env_def env_retransmit_def Retransmit_def send)
  qed
  have "\<not> throttles P sv (ne_tGroup (redis_env fp sp rt nc :: 's rt_world nack_env)) (ua_ip src) (frame_txid raw) lm"
    "nack_end d = nack_start d" "\<And>b. ne_WriteTo (redis_env fp sp rt nc :: 's rt_world nack_env) b src = None"
    using limits(2) nack writes(2) by (simp_all add: redis_env_def)
  from nack_served [OF nack(1) this(2) limits(1) look this(1) rt acks this(3)] show ?thesis
    by (simp only: nack(3))
qed

theorem ingested_frame_is_retransmitted_witness:
  "\<exists>h' wi' w'. recv_step ex_frame redis_ops (worker_New ex_iface 9001 [] second) 0 (ex_event 1)
      (\<lambda>_. [], \<lparr>iw_cache = \<lparr>rd_client = ref_redis, rd_prefix = [9], rd_server = []\<rparr>, iw_rec = None\<rparr>) = (False, h', wi')
    \<and> processNACK ex_frame ex_rate (server_New 9300 4)
        (redis_env ex_frame ex_shard ex_rt ex_choice) (ex_nack 0 1)
        (Some \<lparr>ua_ip = [], ua_port = 5\<rparr>)
        \<lparr>nw_x = \<lparr>w_redis = Some (iw_cache wi'), w_rec = None, w_egress = []\<rparr>, nw_lim = ex_limiter 2, nw_rec = None, nw_sent = []\<rparr>
      = Inr w'
    \<and> map (\<lambda>(c, raw, g). (c, raw)) (w_egress (nw_x w')) = [(3, ex_raw 1)]
    \<and> nw_sent w' = [(\<lparr>ua_ip = [], ua_port = 5\<rparr>, response_bytes ex_frame msgTypeACK 1 1)]"
proof -
  let ?rc = "\<lparr>rd_client = ref_redis, rd_prefix = [9], rd_server = []\<rparr>"
  let ?wi = "\<lparr>iw_cache = ?rc, iw_rec = None\<rparr>" and ?wk = "worker_New ex_iface 9001 [] second" and ?a = "\<lparr>ua_ip = [], ua_port = 5\<rparr>"
  let ?rt = ex_rt
  let ?env = "redis_env ex_frame ex_shard ?rt ex_choice :: ref_db rt_world nack_env"
  obtain h' wi' where st: "recv_step ex_frame redis_ops ?wk 0 (ex_event 1) (\<lambda>_. [], ?wi) = (False, h', wi')"
    using recv_step_data [of "ex_raw 1" "ex_event 1" ex_frame redis_ops ?wk 0 "\<lambda>_. []" ?wi]
    by (simp add: ex_event_def recvBufSize_def Let_def)
  let ?w = "\<lparr>nw_x = \<lparr>w_redis = Some (iw_cache wi'), w_rec = None, w_egress = []\<rparr>, nw_lim = ex_limiter 2, nw_rec = None, nw_sent = []\<rparr>"
  obtain lm where lm: "pre_tiers ex_rate ?env (ua_ip ?a) 0 1 (ex_limiter 2) = Inr (None, lm)"
    using ex_pre_tiers [of 2] by fastforce
  have "\<exists>w'. processNACK ex_frame ex_rate (server_New 9300 4) ?env (ex_nack 0 1) (Some ?a) ?w = Inr w'
      \<and> w_egress (nw_x w') = w_egress (nw_x ?w) @ map (\<lambda>(n, c). (c, ex_raw 1,
          retransmit_group ex_frame ex_shard ?rt (ex_raw 1) (frame_txid (ex_raw 1)))) (range_over (nc_ord ex_choice) (rt_sockets ?rt))
      \<and> nw_sent w' = nw_sent ?w @ [(?a, response_bytes ex_frame msgTypeACK 1 (d_SeqNum \<lparr>d_HashKey = 0, d_SeqNum = ucast (1 :: byte)\<rparr>))]"
    by (rule ingested_frame_is_retransmitted [where db = ref_view and wi = ?wi and wk = ?wk and ev = "ex_event 1" and a = 0
          and h = "\<lambda>_. []" and h' = h' and wi' = wi' and lm = lm])
      (use st lm in \<open>simp_all add: ref_redis_laws ref_redis_up ttl_ok_def worker_New_def rt_New_def decode_ex_raw recvBufSize_def
        ex_event_def ex_nack_fields ex_choice_def ex_rt_def throttles_def server_New_def redis_view_def ref_view_def\<close>)
  then obtain w' where "processNACK ex_frame ex_rate (server_New 9300 4) ?env (ex_nack 0 1) (Some ?a) ?w = Inr w'"
    "map (\<lambda>(c, raw, g). (c, raw)) (w_egress (nw_x w')) = [(3, ex_raw 1)]"
    "nw_sent w' = [(?a, response_bytes ex_frame msgTypeACK 1 1)]" by (auto simp: ex_choice_def ex_rt_def)
  then show ?thesis using st by (intro exI [of _ h'] exI [of _ wi'] exI [of _ w'] conjI)
qed

text \<open>C19: From ingress to retransmission, with the in-memory backend and no dedup gate.  As long as no other
  datagram has overwritten the receive buffer, a NACK for the frame received last, within its
  time-to-live and the limits, sends exactly that frame on every egress socket and acknowledges it.\<close>

theorem memory_latest_frame_is_retransmitted:
  fixes w :: "(slice memcache \<times> 's rt_world, 'b) nack_world"
  assumes frame: "decode_any fp raw = Inr f" "d_SeqNum f \<noteq> 0" "raw \<noteq> []" "length raw \<le> recvBufSize"
    and received: "re_recv ev = RData raw" "recv_step fp mem_ops wk a ev (h, wi) = (False, h', wi')"
    and nack: "validateNACK fp d = None" "nack_hash d = d_HashKey f" "nack_start d = d_SeqNum f" "nack_end d = d_SeqNum f"
    and world: "nw_x w = (iw_cache wi', x)" "w_redis x = None"
    and limits: "pre_tiers P (memory_env fp sp rt h' nc :: (slice memcache \<times> 's rt_world) nack_env) (ua_ip src)
         (nack_hash d) (nack_start d) (nw_lim w) = Inr (None, lm)"
      "\<not> throttles P sv (nc_tGroup nc) (ua_ip src) (frame_txid raw) lm"
    and times: "nc_tGet nc \<le> re_now ev + wk_ttl wk"
    and writes: "\<And>n c. (n, c) \<in> set (rt_sockets rt) \<Longrightarrow> nc_egress nc c = None" "\<And>b. nc_WriteTo nc b src = None"
    and acks: "\<not> sv_suppressACK sv"
  shows "\<exists>w'. processNACK fp P sv (memory_env fp sp rt h' nc) d (Some src) w = Inr w'
    \<and> w_egress (snd (nw_x w')) = w_egress x
        @ map (\<lambda>(n, c). (c, raw, retransmit_group fp sp rt raw (frame_txid raw)))
            (range_over (nc_ord nc) (rt_sockets rt))
    \<and> nw_sent w' = nw_sent w @ [(src, response_bytes fp msgTypeACK 1 (d_SeqNum f))]"
proof -
  let ?env = "memory_env fp sp rt h' nc :: (slice memcache \<times> 's rt_world) nack_env"
  have look: "ne_Retrieve ?env (frame_key (nack_hash d) (nack_start d)) (nw_x w) = (Inr (Some raw), (iw_cache wi', x))"
    using memory_latest_lookup [OF frame received times] world nack
    by (simp add: memory_env_def frame_key_eq)
  have send: "egress_loop (nc_egress nc) raw g (range_over (nc_ord nc) (rt_sockets rt)) (v :: 's rt_world)
      = (None, v\<lparr>w_egress := w_egress v @ map (\<lambda>(n, c). (c, raw, g)) (range_over (nc_ord nc) (rt_sockets rt))\<rparr>)" for g v
    by (rule egress_range) (rule writes(1))
  have rt: "\<exists>rc' y. ne_Retransmit ?env raw (frame_txid raw) rc (iw_cache wi', x) = (None, rc', y)
      \<and> w_egress (snd y) = w_egress x
          @ map (\<lambda>(n, c). (c, raw, retransmit_group fp sp rt raw (frame_txid raw)))
            (range_over (nc_ord nc) (rt_sockets rt))" for rc
    using world(2)
    by (simp add: memory_env_def env_retransmit_def Retransmit_def dedup_gate_def send)
  have "\<not> throttles P sv (ne_tGroup ?env) (ua_ip src) (frame_txid raw) lm" "nack_end d = nack_start d"
    "\<And>b. ne_WriteTo ?env b src = None"
    using limits(2) nack writes(2) by (simp_all add: memory_env_def)
  from nack_served [OF nack(1) this(2) limits(1) look this(1) rt acks this(3)] show ?thesis
    by (simp only: nack(3))
qed

theorem memory_latest_frame_is_retransmitted_witness:
  "\<exists>h' wi' w'. recv_step ex_frame mem_ops (worker_New ex_iface 9001 [] second) 0 (ex_event 1)
      (\<lambda>_. [], \<lparr>iw_cache = mem_New 0, iw_rec = None\<rparr>) = (False, h', wi')
    \<and> processNACK ex_frame ex_rate (server_New 9300 4)
        (memory_env ex_frame ex_shard ex_rt h' ex_choice) (ex_nack 0 1)
        (Some \<lparr>ua_ip = [], ua_port = 5\<rparr>)
        \<lparr>nw_x = (iw_cache wi', (\<lparr>w_redis = None, w_rec = None, w_egress = []\<rparr> :: unit rt_world)),
         nw_lim = ex_limiter 2, nw_rec = None, nw_sent = []\<rparr> = Inr w'
    \<and> map (\<lambda>(c, raw, g). (c, raw)) (w_egress (snd (nw_x w'))) = [(3, ex_raw 1)]
    \<and> nw_sent w' = [(\<lparr>ua_ip = [], ua_port = 5\<rparr>, response_bytes ex_frame msgTypeACK 1 1)]"
proof -
  let ?wi = "\<lparr>iw_cache = mem_New 0, iw_rec = None\<rparr>" and ?wk = "worker_New ex_iface 9001 [] second" and ?a = "\<lparr>ua_ip = [], ua_port = 5\<rparr>"
  let ?rt = ex_rt
  let ?x = "\<lparr>w_redis = None, w_rec = None, w_egress = []\<rparr> :: unit rt_world"
  obtain h' wi' where st: "recv_step ex_frame mem_ops ?wk 0 (ex_event 1) (\<lambda>_. [], ?wi) = (False, h', wi')"
    by (simp add: recv_ex_event)
  let ?env = "memory_env ex_frame ex_shard ?rt h' ex_choice :: (slice memcache \<times> unit rt_world) nack_env"
  let ?w = "\<lparr>nw_x = (iw_cache wi', ?x), nw_lim = ex_limiter 2, nw_rec = None, nw_sent = []\<rparr>"
  obtain lm where lm: "pre_tiers ex_rate ?env (ua_ip ?a) 0 1 (ex_limiter 2) = Inr (None, lm)"
    using ex_pre_tiers [of 2] by fastforce
  have "\<exists>w'. processNACK ex_frame ex_rate (server_New 9300 4) ?env (ex_nack 0 1) (Some ?a) ?w = Inr w'
      \<and> w_egress (snd (nw_x w')) = w_egress ?x @ map (\<lambda>(n, c). (c, ex_raw 1,
          retransmit_group ex_frame ex_shard ?rt (ex_raw 1) (frame_txid (ex_raw 1)))) (range_over (nc_ord ex_choice) (rt_sockets ?rt))
      \<and> nw_sent w' = nw_sent ?w @ [(?a, response_bytes ex_frame msgTypeACK 1 (d_SeqNum \<lparr>d_HashKey = 0, d_SeqNum = ucast (1 :: byte)\<rparr>))]"
    by (rule memory_latest_frame_is_retransmitted [where wi = ?wi and wk = ?wk and ev = "ex_event 1" and a = 0
          and h = "\<lambda>_. []" and wi' = wi' and lm = lm])
      (use st lm in \<open>simp_all add: worker_New_def decode_ex_raw recvBufSize_def ex_event_def ex_nack_fields ex_choice_def
        ex_rt_def throttles_def server_New_def\<close>)
  then obtain w' where "processNACK ex_frame ex_rate (server_New 9300 4) ?env (ex_nack 0 1) (Some ?a) ?w = Inr w'"
    "map (\<lambda>(c, raw, g). (c, raw)) (w_egress (snd (nw_x w'))) = [(3, ex_raw 1)]"
    "nw_sent w' = [(?a, response_bytes ex_frame msgTypeACK 1 1)]" by (auto simp: ex_choice_def ex_rt_def)
  then show ?thesis using st by (intro exI [of _ h'] exI [of _ wi'] exI [of _ w'] conjI)
qed

text \<open>C5: The sequence tier bounds the work one SeqNum can cause.  Over any sequence of NACKs, from any sources,
  handled one after the other by a freshly built server: at most \<open>SequenceMax\<close> of those that ask for a given SeqNum within any
  window make the handler look a frame up in the cache, and so are answered or retransmitted, when the sequence tier's clock readings do
  not go back (\<open>\<delta> = 0\<close>; when a reading lies behind an earlier one by at most \<open>\<delta>\<close>, for windows shorter by \<open>\<delta>\<close>).  The lookups are those
  the handler makes, recorded at the cache.  The sequence is handled without a panic.\<close>

theorem sequence_lookup_bound:
  assumes "sane (sq_max (sequenceLim (nw_lim w)))" "sane (sw_max (chainLimiter (nw_lim w)))"
    and "sq_seqs (sequenceLim (nw_lim w)) = []" "0 \<le> \<delta>" "clock_skew \<delta> (seq_calls calls)"
  shows "\<exists>flags w'. nack_run fp P sv calls w = Inr (flags, w')
    \<and> int (admitted_in q T (sq_window (sequenceLim (nw_lim w)) - \<delta>) (seq_calls calls) flags) \<le> sq_max (sequenceLim (nw_lim w))"
proof -
  let ?sl = "sequenceLim (nw_lim w)"
  obtain flags w' where run: "nack_run fp P sv calls w = Inr (flags, w')"
    using nack_run_total [of w fp P sv calls] assms(1,2) by (auto simp: limiter_sane_def)
  from nack_run_seq [OF run] obtain cs oks sl where cs: "sq_run cs ?sl = Inr (oks, sl)" "clock_skew \<delta> cs"
    "admitted_in q T (sq_window ?sl - \<delta>) (seq_calls calls) flags \<le> admitted_in q T (sq_window ?sl - \<delta>) cs oks"
    using assms(5) by blast
  have "int (admitted_in q T (sq_window ?sl - \<delta>) cs oks) \<le> sq_max ?sl"
    using seqw.run_bound [OF assms(1) _ assms(4) cs(2)] cs(1) assms(3) by (simp add: sq_run_allow_run sq_stamps_def)
  then show ?thesis using run cs(3) by fastforce
qed

theorem sequence_lookup_bound_witness:
  "\<exists>flags w'. nack_run ex_frame ex_rate (server_New 9300 4) (replicate 7 (ex_env None, ex_nack 0 1, None))
      \<lparr>nw_x = ((), []), nw_lim = ex_limiter 9, nw_rec = None, nw_sent = []\<rparr> = Inr (flags, w')
    \<and> int (admitted_in (1 :: u64) 0 minute (replicate 7 (0, 1)) flags) \<le> 3"
proof -
  let ?w = "\<lparr>nw_x = ((), []), nw_lim = ex_limiter 9, nw_rec = None, nw_sent = []\<rparr>"
  have c: "seq_calls (replicate 7 (ex_env None, ex_nack 0 1, None)) = replicate 7 (0, 1)"
    by (simp add: seq_calls_def ex_nack_fields) (simp add: ex_env_def)
  have w: "sequenceLim (nw_lim ?w) = newSequenceLimiter 3 minute" "sane (sw_max (chainLimiter (nw_lim ?w)))"
    by (simp_all add: ex_limiter_def newSlidingWindowLimiter_def sane_def)
  have "clock_skew 0 (replicate 7 (0, 1 :: u64))" by (simp add: eval_nat_numeral)
  then show ?thesis
    using sequence_lookup_bound [of ?w 0 "replicate 7 (ex_env None, ex_nack 0 1, None)" ex_frame ex_rate
        "server_New 9300 4" 1 0] w
    by (simp add: c newSequenceLimiter_def sane_def)
qed

text \<open>C28: An endpoint that started with a sequence maximum and a chain rate that are not negative and not absurdly
  large never crashes while it serves: in no reachable state of its NACK server has a goroutine panicked.\<close>

theorem started_endpoint_never_panics:
  assumes "run_setup sp ru fds = (Inr app, fds')"
    and "0 \<le> RLSequenceMax (a_cfg app)" "RLSequenceMax (a_cfg app) \<le> 10 ^ 12"
    and "RLChainRate (a_cfg app) = Fin r" "1 \<le> r" "r \<le> 10 ^ 12"
    and "server_start listen (a_server app) \<lparr>nw_x = x, nw_lim = a_limiter app, nw_rec = Some (a_rec app), nw_sent = []\<rparr> = Inr s0"
    and "(pool_step (nack_pool fp P (a_server app)))\<^sup>*\<^sup>* s0 s"
  shows "p_panic s = None \<and> length (p_chan s) \<le> 100"
  using assms(1)
proof (cases rule: run_setup_app)
  case (1 mcIface nackIP)
  have "limiter_sane (a_limiter app)"
    using 1(6) limiter_of_config_sane [OF assms(2-6), of "ru_oob ru"] by simp
  then have "np.good s0" by (intro server_start_good [OF assms(7)]) simp
  then have "np.good s" using np.reach_good assms(8) by blast
  then show ?thesis by (simp add: np.good_def pool_inv_def chan_cap_def)
qed

theorem started_endpoint_never_panics_witness:
  "\<exists>(app :: (unit, int) app) fds' s0. run_setup ex_shard ex_run [] = (Inr app, fds')
    \<and> server_start (\<lambda>_. None) (a_server app)
        \<lparr>nw_x = (), nw_lim = a_limiter app, nw_rec = Some (a_rec app), nw_sent = []\<rparr> = Inr s0 \<and> p_panic s0 = None"
proof -
  obtain app :: "(unit, int) app" and fds' where a: "run_setup ex_shard ex_run [] = (Inr app, fds')"
    "RLSequenceMax (a_cfg app) = 100" "RLChainRate (a_cfg app) = Fin 500" using ex_run_setup by blast
  let ?w = "\<lparr>nw_x = (), nw_lim = a_limiter app, nw_rec = Some (a_rec app), nw_sent = []\<rparr>"
  obtain s0 where s0: "server_start (\<lambda>_. None) (a_server app) ?w = Inr s0" by (simp add: server_start_def)
  have "p_panic s0 = None"
    using started_endpoint_never_panics [OF a(1) _ _ a(3) _ _ s0 rtranclp.rtrancl_refl] a(2) by simp
  then show ?thesis using a(1) s0 by blast
qed

end
